theory Spec2Isabelle
  imports Complex_Main "HOL-Library.Monad_Syntax"
begin

section \<open>The search core of Rodent (search.cpp)\<close>

text \<open>
  The file search.cpp includes rodent.h, which is not part of the sources at hand. The
  constants it declares (\<open>MAX_PLY\<close>, \<open>MAX_MOVES\<close>, \<open>INF\<close> (written \<open>INFc\<close> below), \<open>MATE\<close>, \<open>MAX_EVAL\<close>, the move
  type tags) and the collaborating modules (position, move generator, transposition
  table, evaluation, quiescence search) are parameters of the definitions below.
  C \<open>int\<close> is modelled by \<open>int\<close>: scores are bounded by \<open>INF\<close>, depths and plies by
  \<open>MAX_PLY\<close>, far from the 32-bit range, so no wrap-around is written out.
\<close>

subsection \<open>POS::DrawScore\<close>

text \<open>The fields of \<open>Par\<close> (class cParam) that search.cpp reads.\<close>

record cParam =
  prog_side :: int
  draw_score :: int
  hist_limit :: int
  shut_up :: bool

definition DrawScore :: "cParam \<Rightarrow> int \<Rightarrow> int" where
  "DrawScore Par mSide =
     (if mSide = prog_side Par then - draw_score Par else draw_score Par)"

subsection \<open>cEngine::InitSearch\<close>

text \<open>
  The cast \<open>(int)\<close> of a double truncates towards zero. The logarithm of the C library
  on doubles is idealised by \<open>ln\<close> on the reals.
\<close>

definition c_int :: "real \<Rightarrow> int" where
  "c_int x = (if 0 \<le> x then \<lfloor>x\<rfloor> else \<lceil>x\<rceil>)"

definition Min_int :: "int \<Rightarrow> int \<Rightarrow> int" where
  "Min_int a b = (if a < b then a else b)"

definition lmr_r :: "nat \<Rightarrow> nat \<Rightarrow> int" where
  "lmr_r dp mv =
     (if dp \<noteq> 0 \<and> mv \<noteq> 0
      then c_int (ln (real dp) * ln (real_of_int (Min_int (int mv) 63)) / 2)
      else 0)"

text \<open>
  The array \<open>msLmrSize[2][MAX_PLY][MAX_MOVES]\<close> is a function of its three indices.
  \<open>InitSearch_cell\<close> is the body of the inner loop, \<open>InitSearch\<close> the two loops.
\<close>

type_synonym lmr_table = "nat \<times> nat \<times> nat \<Rightarrow> int"

definition InitSearch_cell :: "lmr_table \<Rightarrow> nat \<Rightarrow> nat \<Rightarrow> lmr_table" where
  "InitSearch_cell t dp mv =
     (let r = lmr_r dp mv;
          t1 = t((0, dp, mv) := r);
          t2 = t1((1, dp, mv) := r - 1);
          t3 = (if t2 (0, dp, mv) > int dp - 1 then t2((0, dp, mv) := int dp - 1) else t2);
          t4 = (if t3 (1, dp, mv) > int dp - 1 then t3((1, dp, mv) := int dp - 1) else t3)
      in t4)"

definition InitSearch :: "nat \<Rightarrow> nat \<Rightarrow> lmr_table \<Rightarrow> lmr_table" where
  "InitSearch MAX_PLY MAX_MOVES t =
     fold (\<lambda>dp t. fold (\<lambda>mv t. InitSearch_cell t dp mv) [0..<MAX_MOVES] t) [0..<MAX_PLY] t"

subsection \<open>cEngine::Widen\<close>

text \<open>
  \<open>Widen\<close> calls \<open>Search\<close> at ply 0 with \<open>was_null = false\<close>, \<open>last_move = -1\<close> and
  \<open>last_capt_sq = -1\<close>; here \<open>srch alpha beta depth pv w\<close> stands for that call, on the
  state \<open>w\<close> of the engine, and returns the score, the PV buffer and the new state
  (\<open>None\<close> when the call does not return). \<open>ab w\<close> reads \<open>Glob.abort_search\<close>.
\<close>

type_synonym ('w) root_search =
  "int \<Rightarrow> int \<Rightarrow> int \<Rightarrow> int list \<Rightarrow> 'w \<Rightarrow> (int \<times> int list \<times> 'w) option"

partial_function (option) Widen_loop ::
  "int \<Rightarrow> 'w root_search \<Rightarrow> ('w \<Rightarrow> bool) \<Rightarrow> int \<Rightarrow> int \<Rightarrow> int \<Rightarrow> int \<Rightarrow> int list \<Rightarrow> 'w
   \<Rightarrow> ((int + unit) \<times> int list \<times> 'w) option" where
  "Widen_loop MAX_EVAL srch ab depth lastScore margin cur_val pv w =
     (if margin < 500 then
        (let alpha = lastScore - margin;
             beta = lastScore + margin
         in case srch alpha beta depth pv w of
              None \<Rightarrow> None
            | Some (cur_val', pv', w') \<Rightarrow>
                if ab w' then Some (Inr (), pv', w')
                else if cur_val' > alpha \<and> cur_val' < beta then Some (Inl cur_val', pv', w')
                else if cur_val' > MAX_EVAL then Some (Inr (), pv', w')
                else Widen_loop MAX_EVAL srch ab depth lastScore (margin * 2) cur_val' pv' w')
      else Some (Inr (), pv, w))"

text \<open>
  The loop yields \<open>Inl v\<close> when it executes \<open>return cur_val\<close> and \<open>Inr ()\<close> when it is
  left by \<open>break\<close> or by its condition; then the full-window search follows.
\<close>

definition Widen ::
  "int \<Rightarrow> int \<Rightarrow> 'w root_search \<Rightarrow> ('w \<Rightarrow> bool) \<Rightarrow> int \<Rightarrow> int list \<Rightarrow> int \<Rightarrow> 'w
   \<Rightarrow> (int \<times> int list \<times> 'w) option" where
  "Widen MAX_EVAL INFc srch ab depth pv lastScore w =
     (case (if depth > 6 \<and> lastScore < MAX_EVAL
            then Widen_loop MAX_EVAL srch ab depth lastScore 8 lastScore pv w
            else Some (Inr (), pv, w)) of
        None \<Rightarrow> None
      | Some (Inl v, pv', w') \<Rightarrow> Some (v, pv', w')
      | Some (Inr u, pv', w') \<Rightarrow> srch (- INFc) INFc depth pv' w')"

text \<open>
  To observe the windows that \<open>Widen\<close> passes to \<open>Search\<close>, a search function is wrapped
  so that the state carries the list of the windows requested so far.
\<close>

definition logged :: "'w root_search \<Rightarrow> ('w \<times> (int \<times> int) list) root_search" where
  "logged srch alpha beta depth pv wl =
     (case srch alpha beta depth pv (fst wl) of
        None \<Rightarrow> None
      | Some (v, pv', w') \<Rightarrow> Some (v, pv', (w', snd wl @ [(alpha, beta)])))"

subsection \<open>The environment of cEngine::Search\<close>

text \<open>
  Bound kinds of a transposition entry, and the calls of \<open>Trans.Store\<close>,
  \<open>UpdateHistory\<close> and \<open>DecreaseHistory\<close> that a search executes, in order. The list of
  these calls is kept in the state only to be observed by the theorems.
\<close>

datatype bound = UPPER | LOWER | EXACT

datatype event =
  TT_Store nat int int bound int int
| History_Update int int int int
| History_Decrease int int

text \<open>
  Everything that search.cpp uses and does not define: the constants and macros of
  rodent.h, the queries and mutators of the position (type \<open>'p\<close>, with undo data
  \<open>'u\<close>), the move generator (type \<open>'m\<close>), and the operations on the rest of the engine
  and of the globals (type \<open>'g\<close>: transposition table, history, node counter, clock,
  flags). \<open>Slowdown\<close> stands for \<open>Glob.nodes++; Slowdown();\<close>, which depends on the
  clock and on the input. \<open>pawns_on_7th p\<close> is
  \<open>p->Pawns(p->mSide) & bb_rel_rank[p->mSide][RANK_7]\<close>, and \<open>on_rank_2_7 sq\<close> is
  \<open>SqBb(sq) & (RANK_2_BB | RANK_7_BB)\<close>. \<open>Retrieve\<close> takes the value of the
  variable behind \<open>&move\<close> and returns the flag, the values behind \<open>&move\<close> and \<open>&score\<close>,
  and the table. \<open>uninit_pv\<close> is the content of the local array \<open>new_pv\<close> before it is
  written. Output to stdout (\<open>DisplayPv\<close>, \<open>DisplayCurrmove\<close>) is not modelled.
\<close>

record ('p, 'u, 'm, 'g) env =
  MAX_PLY :: int
  INFc :: int
  MATE :: int
  MAX_EVAL :: int
  MV_NORMAL :: int
  MV_BADCAPT :: int
  CASTLE :: int
  NO_TP :: int
  P_tp :: int
  Fsq :: "int \<Rightarrow> int"
  Tsq :: "int \<Rightarrow> int"
  MoveType :: "int \<Rightarrow> int"
  on_rank_2_7 :: "int \<Rightarrow> bool"
  IsDraw :: "'p \<Rightarrow> bool"
  InCheck :: "'p \<Rightarrow> bool"
  MayNull :: "'p \<Rightarrow> bool"
  Illegal :: "'p \<Rightarrow> bool"
  mSide :: "'p \<Rightarrow> int"
  mHashKey :: "'p \<Rightarrow> nat"
  pawns_on_7th :: "'p \<Rightarrow> bool"
  TpOnSq :: "'p \<Rightarrow> int \<Rightarrow> int"
  mPc :: "'p \<Rightarrow> int \<Rightarrow> int"
  DoMove :: "int \<Rightarrow> 'p \<Rightarrow> 'p \<times> 'u"
  UndoMove :: "int \<Rightarrow> 'u \<Rightarrow> 'p \<Rightarrow> 'p"
  DoNull :: "'p \<Rightarrow> 'p \<times> 'u"
  UndoNull :: "'u \<Rightarrow> 'p \<Rightarrow> 'p"
  Slowdown :: "'g \<Rightarrow> 'g"
  abort_search :: "'g \<Rightarrow> bool"
  mRootDepth :: "'g \<Rightarrow> int"
  set_mFlRootChoice :: "'g \<Rightarrow> 'g"
  Par :: "'g \<Rightarrow> cParam"
  Retrieve :: "nat \<Rightarrow> int \<Rightarrow> int \<Rightarrow> int \<Rightarrow> int \<Rightarrow> int \<Rightarrow> 'g \<Rightarrow> bool \<times> int \<times> int \<times> 'g"
  RetrieveMove :: "nat \<Rightarrow> int \<Rightarrow> 'g \<Rightarrow> int"
  Trans_Store :: "nat \<Rightarrow> int \<Rightarrow> int \<Rightarrow> bound \<Rightarrow> int \<Rightarrow> int \<Rightarrow> 'g \<Rightarrow> 'g"
  Evaluate :: "'p \<Rightarrow> 'g \<Rightarrow> int \<times> 'g"
  QuiesceChecks :: "int \<Rightarrow> int \<Rightarrow> int \<Rightarrow> int list \<Rightarrow> 'p \<Rightarrow> 'g \<Rightarrow> int \<times> int list \<times> 'p \<times> 'g"
  UpdateHistory :: "'p \<Rightarrow> int \<Rightarrow> int \<Rightarrow> int \<Rightarrow> int \<Rightarrow> 'g \<Rightarrow> 'g"
  DecreaseHistory :: "'p \<Rightarrow> int \<Rightarrow> int \<Rightarrow> 'g \<Rightarrow> 'g"
  mHistory :: "'g \<Rightarrow> int \<Rightarrow> int \<Rightarrow> int"
  Refutation :: "int \<Rightarrow> 'g \<Rightarrow> int"
  InitMoves :: "'p \<Rightarrow> int \<Rightarrow> int \<Rightarrow> int \<Rightarrow> int \<Rightarrow> 'g \<Rightarrow> 'm"
  NextMove :: "'m \<Rightarrow> 'p \<Rightarrow> 'g \<Rightarrow> int \<times> int \<times> 'm"
  msLmrSize :: lmr_table
  uninit_pv :: "int list"

text \<open>The state a search works on: the position \<open>*p\<close>, the rest, and the calls observed.\<close>

record ('p, 'g) world =
  pos :: 'p
  eng :: 'g
  log :: "event list"

type_synonym ('p, 'g) result = "int \<times> int list \<times> ('p, 'g) world"

text \<open>Arguments: ply, alpha, beta, depth, was_null, last_move, last_capt_sq, pv.\<close>

type_synonym ('p, 'g) search_fn =
  "int \<Rightarrow> int \<Rightarrow> int \<Rightarrow> int \<Rightarrow> bool \<Rightarrow> int \<Rightarrow> int \<Rightarrow> int list \<Rightarrow> ('p, 'g) world
   \<Rightarrow> ('p, 'g) result option"

definition Store_ev ::
  "('p, 'u, 'm, 'g) env \<Rightarrow> nat \<Rightarrow> int \<Rightarrow> int \<Rightarrow> bound \<Rightarrow> int \<Rightarrow> int \<Rightarrow> ('p, 'g) world
   \<Rightarrow> ('p, 'g) world" where
  "Store_ev env key move score bd depth ply w =
     w\<lparr>eng := Trans_Store env key move score bd depth ply (eng w),
       log := log w @ [TT_Store key move score bd depth ply]\<rparr>"

definition UpdateHistory_ev ::
  "('p, 'u, 'm, 'g) env \<Rightarrow> int \<Rightarrow> int \<Rightarrow> int \<Rightarrow> int \<Rightarrow> ('p, 'g) world \<Rightarrow> ('p, 'g) world" where
  "UpdateHistory_ev env last_move move depth ply w =
     w\<lparr>eng := UpdateHistory env (pos w) last_move move depth ply (eng w),
       log := log w @ [History_Update last_move move depth ply]\<rparr>"

definition DecreaseHistory_ev ::
  "('p, 'u, 'm, 'g) env \<Rightarrow> int \<Rightarrow> int \<Rightarrow> ('p, 'g) world \<Rightarrow> ('p, 'g) world" where
  "DecreaseHistory_ev env move depth w =
     w\<lparr>eng := DecreaseHistory env (pos w) move depth (eng w),
       log := log w @ [History_Decrease move depth]\<rparr>"

text \<open>The block executed on a beta cutoff and before an EXACT store when not in check.\<close>

definition history_block ::
  "('p, 'u, 'm, 'g) env \<Rightarrow> int \<Rightarrow> int \<Rightarrow> int \<Rightarrow> int \<Rightarrow> int list \<Rightarrow> ('p, 'g) world
   \<Rightarrow> ('p, 'g) world" where
  "history_block env last_move move depth ply mv_played w =
     fold (\<lambda>mv w'. DecreaseHistory_ev env mv depth w') mv_played
       (UpdateHistory_ev env last_move move depth ply w)"

definition QuiesceChecks_w ::
  "('p, 'u, 'm, 'g) env \<Rightarrow> int \<Rightarrow> int \<Rightarrow> int \<Rightarrow> int list \<Rightarrow> ('p, 'g) world \<Rightarrow> ('p, 'g) result" where
  "QuiesceChecks_w env ply alpha beta pv w =
     (case QuiesceChecks env ply alpha beta pv (pos w) (eng w) of
        (v, pv', p', g') \<Rightarrow> (v, pv', w\<lparr>pos := p', eng := g'\<rparr>))"

definition Evaluate_w :: "('p, 'u, 'm, 'g) env \<Rightarrow> ('p, 'g) world \<Rightarrow> int \<times> ('p, 'g) world" where
  "Evaluate_w env w = (case Evaluate env (pos w) (eng w) of (v, g') \<Rightarrow> (v, w\<lparr>eng := g'\<rparr>))"

definition Retrieve_w ::
  "('p, 'u, 'm, 'g) env \<Rightarrow> int \<Rightarrow> int \<Rightarrow> int \<Rightarrow> int \<Rightarrow> int \<Rightarrow> ('p, 'g) world
   \<Rightarrow> bool \<times> int \<times> int \<times> ('p, 'g) world" where
  "Retrieve_w env move alpha beta depth ply w =
     (case Retrieve env (mHashKey env (pos w)) move alpha beta depth ply (eng w) of
        (found, move', score, g') \<Rightarrow> (found, move', score, w\<lparr>eng := g'\<rparr>))"

text \<open>\<open>Glob.abort_search && mRootDepth > 1\<close>\<close>

definition aborted :: "('p, 'u, 'm, 'g) env \<Rightarrow> ('p, 'g) world \<Rightarrow> bool" where
  "aborted env w = (abort_search env (eng w) \<and> mRootDepth env (eng w) > 1)"

text \<open>
  PV buffers are lists of moves. \<open>pv_head\<close> reads \<open>*pv\<close> and \<open>pv_clear\<close> is \<open>*pv = 0\<close>.
\<close>

definition pv_head :: "int list \<Rightarrow> int" where
  "pv_head pv = (case pv of [] \<Rightarrow> 0 | mv # _ \<Rightarrow> mv)"

definition pv_clear :: "int list \<Rightarrow> int list" where
  "pv_clear pv = 0 # tl pv"

text \<open>
  Modelled from the spec: \<open>BuildPv\<close> is defined in another file. The spec says that a
  principal variation is an ordered sequence of moves terminated by a zero sentinel and
  that the kernel rebuilds the PV from the new best move and the child's PV: the move is
  written to the head, then the child's moves up to and including its sentinel.
\<close>

fun BuildPv_copy :: "int list \<Rightarrow> int list \<Rightarrow> int list" where
  "BuildPv_copy dst [] = 0 # tl dst"
| "BuildPv_copy dst (s # src) = (if s = 0 then 0 # tl dst else s # BuildPv_copy (tl dst) src)"

definition BuildPv :: "int list \<Rightarrow> int list \<Rightarrow> int \<Rightarrow> int list" where
  "BuildPv dst src move = move # BuildPv_copy (tl dst) src"

text \<open>The static tables and limits defined at the top of search.cpp.\<close>

definition mscSnpDepth :: int where "mscSnpDepth = 3"
definition mscRazorDepth :: int where "mscRazorDepth = 4"
definition mscFutDepth :: int where "mscFutDepth = 6"
definition mscSelectiveDepth :: int where
  "mscSelectiveDepth = max (max mscSnpDepth mscRazorDepth) mscFutDepth"
definition mscRazorMargin :: "int list" where "mscRazorMargin = [0, 300, 360, 420, 480]"
definition mscFutMargin :: "int list" where "mscFutMargin = [0, 100, 160, 220, 280, 340, 400]"

subsection \<open>cEngine::Search: the main loop\<close>

text \<open>
  The locals of a frame that are fixed when the main loop starts (\<open>node\<close>; \<open>n_beta\<close> is
  \<open>beta\<close> after mate-distance pruning) and those the loop changes (\<open>lstate\<close>).
\<close>

record node =
  n_ply :: int
  n_beta :: int
  n_depth :: int
  n_last_move :: int
  n_last_capt_sq :: int
  n_is_pv :: bool
  n_fl_check :: bool
  n_fl_prunable :: bool
  n_did_null :: bool
  n_eval :: int

record ('p, 'm, 'g) lstate =
  l_alpha :: int
  l_best :: int
  l_mv_tried :: int
  l_mv_played :: "int list"
  l_quiet_tried :: int
  l_fl_futility :: bool
  l_m :: 'm
  l_new_pv :: "int list"
  l_pv :: "int list"
  l_w :: "('p, 'g) world"

text \<open>PRINCIPAL VARIATION SEARCH, one pass from the label \<open>research\<close>.\<close>

definition pvs ::
  "('p, 'u, 'm, 'g) env \<Rightarrow> ('p, 'g) search_fn \<Rightarrow> int \<Rightarrow> int \<Rightarrow> int \<Rightarrow> int \<Rightarrow> int \<Rightarrow> int \<Rightarrow> int
   \<Rightarrow> int list \<Rightarrow> ('p, 'g) world \<Rightarrow> ('p, 'g) result option" where
  "pvs env rec ply alpha beta best new_depth move last_capt new_pv w =
     (if best = - INFc env then
        (case rec (ply + 1) (- beta) (- alpha) new_depth False move last_capt new_pv w of
           None \<Rightarrow> None
         | Some (v, npv, w1) \<Rightarrow> Some (- v, npv, w1))
      else
        (case rec (ply + 1) (- alpha - 1) (- alpha) new_depth False move last_capt new_pv w of
           None \<Rightarrow> None
         | Some (v, npv, w1) \<Rightarrow>
             if \<not> abort_search env (eng w1) \<and> - v > alpha \<and> - v < beta then
               (case rec (ply + 1) (- beta) (- alpha) new_depth False move last_capt npv w1 of
                  None \<Rightarrow> None
                | Some (v2, npv2, w2) \<Rightarrow> Some (- v2, npv2, w2))
             else Some (- v, npv, w1)))"

text \<open>
  The jump back to \<open>research\<close> is taken at most once, as it sets \<open>reduction\<close> to 0.
\<close>

definition research ::
  "('p, 'u, 'm, 'g) env \<Rightarrow> ('p, 'g) search_fn \<Rightarrow> int \<Rightarrow> int \<Rightarrow> int \<Rightarrow> int \<Rightarrow> int \<Rightarrow> int \<Rightarrow> int
   \<Rightarrow> int \<Rightarrow> int list \<Rightarrow> ('p, 'g) world \<Rightarrow> ('p, 'g) result option" where
  "research env rec ply alpha beta best new_depth reduction move last_capt new_pv w =
     (case pvs env rec ply alpha beta best new_depth move last_capt new_pv w of
        None \<Rightarrow> None
      | Some (score, npv, w1) \<Rightarrow>
          if score > alpha \<and> reduction \<noteq> 0
          then pvs env rec ply alpha beta best (new_depth + reduction) move last_capt npv w1
          else Some (score, npv, w1))"

text \<open>UNDO MOVE, the abort check, BETA CUTOFF and NEW BEST MOVE.\<close>

definition move_done ::
  "('p, 'u, 'm, 'g) env \<Rightarrow> node \<Rightarrow> int \<Rightarrow> 'u \<Rightarrow> ('p, 'm, 'g) lstate \<Rightarrow> int \<Rightarrow> int list
   \<Rightarrow> ('p, 'g) world \<Rightarrow> ('p, 'g) result + ('p, 'm, 'g) lstate" where
  "move_done env nd move u ls score npv w =
     (let w1 = w\<lparr>pos := UndoMove env move u (pos w)\<rparr> in
      if aborted env w1 then Inl (0, l_pv ls, w1)
      else if score \<ge> n_beta nd then
        (let w2 = (if \<not> n_fl_check nd
                   then history_block env (n_last_move nd) move (n_depth nd) (n_ply nd)
                          (l_mv_played ls) w1
                   else w1);
             w3 = Store_ev env (mHashKey env (pos w2)) move score LOWER (n_depth nd) (n_ply nd) w2;
             pv1 = (if n_ply nd = 0 then BuildPv (l_pv ls) npv move else l_pv ls)
         in Inl (score, pv1, w3))
      else
        (let raised = (score > l_best ls \<and> score > l_alpha ls) in
         Inr (ls\<lparr>l_best := (if score > l_best ls then score else l_best ls),
                 l_alpha := (if raised then score else l_alpha ls),
                 l_pv := (if raised then BuildPv (l_pv ls) npv move else l_pv ls),
                 l_new_pv := npv,
                 l_w := w1\<rparr>)))"

text \<open>SET FUTILITY PRUNING FLAG\<close>

definition futility_flag ::
  "('p, 'u, 'm, 'g) env \<Rightarrow> node \<Rightarrow> int \<Rightarrow> ('p, 'm, 'g) lstate \<Rightarrow> bool" where
  "futility_flag env nd mv_type ls =
     (if mv_type = MV_NORMAL env \<and> l_quiet_tried ls = 0 \<and> n_fl_prunable nd
         \<and> n_depth nd \<le> mscFutDepth
         \<and> n_eval nd + mscFutMargin ! nat (n_depth nd) < n_beta nd
      then True else l_fl_futility ls)"

text \<open>GATHER INFO ABOUT THE MOVE\<close>

definition played ::
  "('p, 'u, 'm, 'g) env \<Rightarrow> node \<Rightarrow> int \<Rightarrow> int \<Rightarrow> ('p, 'm, 'g) lstate \<Rightarrow> ('p, 'm, 'g) lstate" where
  "played env nd move mv_type ls =
     ls\<lparr>l_mv_played := l_mv_played ls @ [move],
        l_mv_tried := l_mv_tried ls + 1,
        l_quiet_tried := (if mv_type = MV_NORMAL env then l_quiet_tried ls + 1
                          else l_quiet_tried ls),
        l_w := (if n_ply nd = 0 \<and> l_mv_tried ls + 1 > 1
                then (l_w ls)\<lparr>eng := set_mFlRootChoice env (eng (l_w ls))\<rparr>
                else l_w ls)\<rparr>"

text \<open>SET NEW SEARCH DEPTH and EXTENSIONS; \<open>p\<close> is the position after the move.\<close>

definition extend :: "('p, 'u, 'm, 'g) env \<Rightarrow> node \<Rightarrow> int \<Rightarrow> 'p \<Rightarrow> int" where
  "extend env nd move p =
     n_depth nd - 1
     + (if (n_is_pv nd \<or> n_depth nd < 8) \<and> InCheck env p then 1 else 0)
     + (if n_is_pv nd \<and> Tsq env move = n_last_capt_sq nd then 1 else 0)
     + (if n_is_pv nd \<and> n_depth nd < 6 \<and> TpOnSq env p (Tsq env move) = P_tp env
           \<and> on_rank_2_7 env (Tsq env move) then 1 else 0)"

text \<open>FUTILITY PRUNING and LATE MOVE PRUNING: the conditions.\<close>

definition futility_prune ::
  "('p, 'u, 'm, 'g) env \<Rightarrow> node \<Rightarrow> int \<Rightarrow> int \<Rightarrow> ('p, 'm, 'g) lstate \<Rightarrow> bool" where
  "futility_prune env nd mv_type mv_hist_score ls =
     (l_fl_futility ls \<and> \<not> InCheck env (pos (l_w ls))
      \<and> mv_hist_score < hist_limit (Par env (eng (l_w ls)))
      \<and> mv_type = MV_NORMAL env \<and> l_mv_tried ls > 1)"

definition late_move_prune ::
  "('p, 'u, 'm, 'g) env \<Rightarrow> node \<Rightarrow> int \<Rightarrow> int \<Rightarrow> ('p, 'm, 'g) lstate \<Rightarrow> bool" where
  "late_move_prune env nd mv_type mv_hist_score ls =
     (n_fl_prunable nd \<and> n_depth nd \<le> 3 \<and> l_quiet_tried ls > 3 * n_depth nd
      \<and> \<not> InCheck env (pos (l_w ls))
      \<and> mv_hist_score < hist_limit (Par env (eng (l_w ls)))
      \<and> mv_type = MV_NORMAL env)"

text \<open>
  The flag responsible for increasing reduction: the quiescence call writes to the
  frame's own \<open>pv\<close>.
\<close>

definition sherwin ::
  "('p, 'u, 'm, 'g) env \<Rightarrow> node \<Rightarrow> ('p, 'm, 'g) lstate \<Rightarrow> bool \<times> int list \<times> ('p, 'g) world" where
  "sherwin env nd ls =
     (if n_did_null nd \<and> n_depth nd > 2 \<and> \<not> InCheck env (pos (l_w ls)) then
        (case QuiesceChecks_w env (n_ply nd) (- n_beta nd) (- n_beta nd + 1) (l_pv ls) (l_w ls) of
           (q_score, pv', w') \<Rightarrow> (q_score \<ge> n_beta nd, pv', w'))
      else (False, l_pv ls, l_w ls))"

text \<open>LMR 1 and LMR 2: the new depth and the reduction.\<close>

definition lmr ::
  "('p, 'u, 'm, 'g) env \<Rightarrow> node \<Rightarrow> int \<Rightarrow> int \<Rightarrow> int \<Rightarrow> bool \<Rightarrow> ('p, 'm, 'g) lstate \<Rightarrow> int
   \<Rightarrow> int \<times> int" where
  "lmr env nd move mv_type mv_hist_score sherwin_flag ls new_depth =
     (let p = pos (l_w ls);
          idx = ((if n_is_pv nd then 1 else 0), nat (n_depth nd), nat (l_mv_tried ls));
          d1 = (if n_depth nd > 2 \<and> l_mv_tried ls > 3 \<and> \<not> n_fl_check nd \<and> \<not> InCheck env p
                   \<and> msLmrSize env idx > 0 \<and> mv_type = MV_NORMAL env
                   \<and> mv_hist_score < hist_limit (Par env (eng (l_w ls)))
                   \<and> MoveType env move \<noteq> CASTLE env
                then (let r0 = msLmrSize env idx;
                          r1 = (if sherwin_flag \<and> new_depth - r0 \<ge> 2 then r0 + 1 else r0);
                          r2 = (if mv_hist_score < 0 \<and> new_depth - r1 \<ge> 2 then r1 + 1 else r1)
                      in (new_depth - r2, r2))
                else (new_depth, 0))
      in if n_depth nd > 2 \<and> l_mv_tried ls > 6
            \<and> l_alpha ls > - MAX_EVAL env \<and> n_beta nd < MAX_EVAL env
            \<and> \<not> n_fl_check nd \<and> \<not> InCheck env p
            \<and> mv_type = MV_BADCAPT env \<and> \<not> n_is_pv nd
         then (fst d1 - 1, 1) else d1)"

text \<open>One iteration of the main loop, for the move that \<open>NextMove\<close> has returned.\<close>

definition loop_body ::
  "('p, 'u, 'm, 'g) env \<Rightarrow> ('p, 'g) search_fn \<Rightarrow> node \<Rightarrow> int \<Rightarrow> int \<Rightarrow> ('p, 'm, 'g) lstate
   \<Rightarrow> (('p, 'g) result + ('p, 'm, 'g) lstate) option" where
  "loop_body env rec nd move mv_type ls =
     (let w = l_w ls;
          ls1 = ls\<lparr>l_fl_futility := futility_flag env nd mv_type ls\<rparr>;
          mv_hist_score = mHistory env (eng w) (mPc env (pos w) (Fsq env move)) (Tsq env move);
          victim = TpOnSq env (pos w) (Tsq env move);
          last_capt = (if victim \<noteq> NO_TP env then Tsq env move else - 1);
          du = DoMove env move (pos w);
          u = snd du;
          w1 = w\<lparr>pos := fst du\<rparr>
      in if Illegal env (pos w1)
         then Some (Inr (ls1\<lparr>l_w := w1\<lparr>pos := UndoMove env move u (pos w1)\<rparr>\<rparr>))
         else
           (let ls2 = played env nd move mv_type (ls1\<lparr>l_w := w1\<rparr>);
                w2 = l_w ls2;
                new_depth = extend env nd move (pos w2);
                skip = Some (Inr (ls2\<lparr>l_w := w2\<lparr>pos := UndoMove env move u (pos w2)\<rparr>\<rparr>))
            in if futility_prune env nd mv_type mv_hist_score ls2 then skip
               else if late_move_prune env nd mv_type mv_hist_score ls2 then skip
               else
                 (let q = sherwin env nd ls2;
                      ls3 = ls2\<lparr>l_pv := fst (snd q), l_w := snd (snd q)\<rparr>;
                      dr = lmr env nd move mv_type mv_hist_score (fst q) ls3 new_depth
                  in case research env rec (n_ply nd) (l_alpha ls3) (n_beta nd) (l_best ls3)
                            (fst dr) (snd dr) move last_capt (l_new_pv ls3) (l_w ls3) of
                       None \<Rightarrow> None
                     | Some (score, npv, w4) \<Rightarrow>
                         Some (move_done env nd move u ls3 score npv w4))))"

text \<open>
  MAIN LOOP: \<open>while ((move = NextMove(m, &mv_type)))\<close>. The natural number bounds the
  number of iterations; \<open>Inl\<close> is a \<open>return\<close> from inside the loop, \<open>Inr\<close> the state at the
  normal exit of the loop, \<open>None\<close> a loop that has not ended within the bound.
\<close>

fun main_loop ::
  "('p, 'u, 'm, 'g) env \<Rightarrow> ('p, 'g) search_fn \<Rightarrow> nat \<Rightarrow> node \<Rightarrow> ('p, 'm, 'g) lstate
   \<Rightarrow> (('p, 'g) result + ('p, 'm, 'g) lstate) option" where
  "main_loop env rec 0 nd ls = None"
| "main_loop env rec (Suc k) nd ls =
     (let nm = NextMove env (l_m ls) (pos (l_w ls)) (eng (l_w ls));
          move = fst nm;
          mv_type = fst (snd nm)
      in if move = 0 then Some (Inr ls)
         else (case loop_body env rec nd move mv_type (ls\<lparr>l_m := snd (snd nm)\<rparr>) of
                 None \<Rightarrow> None
               | Some (Inl r) \<Rightarrow> Some (Inl r)
               | Some (Inr ls') \<Rightarrow> main_loop env rec k nd ls'))"

subsection \<open>cEngine::Search: from node entry to the main loop\<close>

text \<open>
  Each phase either returns from \<open>Search\<close> (\<open>Inl\<close>) or hands over to the next one; the
  last one yields the locals with which the main loop starts (\<open>Inr\<close>).
\<close>

type_synonym ('p, 'm, 'g) entered = "('p, 'g) result + node \<times> ('p, 'm, 'g) lstate"

text \<open>PREPARE FOR MAIN SEARCH\<close>

definition Search_init ::
  "('p, 'u, 'm, 'g) env \<Rightarrow> int \<Rightarrow> bool \<Rightarrow> int \<Rightarrow> int \<Rightarrow> int \<Rightarrow> int \<Rightarrow> int \<Rightarrow> bool \<Rightarrow> bool
   \<Rightarrow> int \<Rightarrow> bool \<Rightarrow> int \<Rightarrow> int \<Rightarrow> int list \<Rightarrow> int list \<Rightarrow> ('p, 'g) world
   \<Rightarrow> node \<times> ('p, 'm, 'g) lstate" where
  "Search_init env ply is_pv alpha beta depth last_move last_capt_sq fl_check fl_prunable
     eval did_null move ref_sq new_pv pv w =
     (\<lparr>n_ply = ply, n_beta = beta, n_depth = depth, n_last_move = last_move,
       n_last_capt_sq = last_capt_sq, n_is_pv = is_pv, n_fl_check = fl_check,
       n_fl_prunable = fl_prunable, n_did_null = did_null, n_eval = eval\<rparr>,
      \<lparr>l_alpha = alpha, l_best = - INFc env, l_mv_tried = 0, l_mv_played = [],
       l_quiet_tried = 0, l_fl_futility = False,
       l_m = InitMoves env (pos w) move (Refutation env move (eng w)) ref_sq ply (eng w),
       l_new_pv = new_pv, l_pv = pv, l_w = w\<rparr>)"

text \<open>INTERNAL ITERATIVE DEEPENING\<close>

definition Search_iid ::
  "('p, 'u, 'm, 'g) env \<Rightarrow> ('p, 'g) search_fn \<Rightarrow> int \<Rightarrow> bool \<Rightarrow> int \<Rightarrow> int \<Rightarrow> int \<Rightarrow> int
   \<Rightarrow> int \<Rightarrow> bool \<Rightarrow> bool \<Rightarrow> int \<Rightarrow> bool \<Rightarrow> int \<Rightarrow> int \<Rightarrow> int list \<Rightarrow> int list
   \<Rightarrow> ('p, 'g) world \<Rightarrow> ('p, 'm, 'g) entered option" where
  "Search_iid env rec ply is_pv alpha beta depth last_move last_capt_sq fl_check fl_prunable
     eval did_null move ref_sq new_pv pv w =
     (if is_pv \<and> \<not> fl_check \<and> move = 0 \<and> depth > 6 then
        (case rec ply alpha beta (depth - 2) False (- 1) last_capt_sq pv w of
           None \<Rightarrow> None
         | Some (v, pv1, w1) \<Rightarrow>
             Some (Inr (Search_init env ply is_pv alpha beta depth last_move last_capt_sq
                          fl_check fl_prunable eval did_null
                          (RetrieveMove env (mHashKey env (pos w1)) move (eng w1))
                          ref_sq new_pv pv1 w1)))
      else Some (Inr (Search_init env ply is_pv alpha beta depth last_move last_capt_sq
                        fl_check fl_prunable eval did_null move ref_sq new_pv pv w)))"

text \<open>RAZORING; \<open>depth\<close> is positive here, so the index of the margin is in range.\<close>

definition Search_razor ::
  "('p, 'u, 'm, 'g) env \<Rightarrow> ('p, 'g) search_fn \<Rightarrow> int \<Rightarrow> bool \<Rightarrow> int \<Rightarrow> int \<Rightarrow> int \<Rightarrow> bool
   \<Rightarrow> int \<Rightarrow> int \<Rightarrow> bool \<Rightarrow> bool \<Rightarrow> int \<Rightarrow> bool \<Rightarrow> int \<Rightarrow> int \<Rightarrow> int list \<Rightarrow> int list
   \<Rightarrow> ('p, 'g) world \<Rightarrow> ('p, 'm, 'g) entered option" where
  "Search_razor env rec ply is_pv alpha beta depth was_null last_move last_capt_sq fl_check
     fl_prunable eval did_null move ref_sq new_pv pv w =
     (let threshold = beta - mscRazorMargin ! nat depth in
      if fl_prunable \<and> move = 0 \<and> \<not> was_null \<and> \<not> pawns_on_7th env (pos w)
         \<and> depth \<le> mscRazorDepth \<and> eval < threshold
      then
        (case QuiesceChecks_w env ply alpha beta pv w of
           (score, pv1, w1) \<Rightarrow>
             if score < threshold then Some (Inl (score, pv1, w1))
             else Search_iid env rec ply is_pv alpha beta depth last_move last_capt_sq
                    fl_check fl_prunable eval did_null move ref_sq new_pv pv1 w1)
      else Search_iid env rec ply is_pv alpha beta depth last_move last_capt_sq
             fl_check fl_prunable eval did_null move ref_sq new_pv pv w)"

text \<open>
  NULL MOVE, from \<open>UndoNull\<close> on: the abort check, the clamp of unproved mate scores and
  the verification search. \<open>w\<close> is the state before \<open>UndoNull\<close>.
\<close>

definition null_done ::
  "('p, 'u, 'm, 'g) env \<Rightarrow> ('p, 'g) search_fn \<Rightarrow> int \<Rightarrow> bool \<Rightarrow> int \<Rightarrow> int \<Rightarrow> int \<Rightarrow> bool
   \<Rightarrow> int \<Rightarrow> int \<Rightarrow> bool \<Rightarrow> bool \<Rightarrow> int \<Rightarrow> int \<Rightarrow> int \<Rightarrow> 'u \<Rightarrow> int \<Rightarrow> int \<Rightarrow> int list
   \<Rightarrow> int list \<Rightarrow> ('p, 'g) world \<Rightarrow> ('p, 'm, 'g) entered option" where
  "null_done env rec ply is_pv alpha beta depth was_null last_move last_capt_sq fl_check
     fl_prunable eval new_depth move u score0 ref_sq new_pv pv w =
     (let w1 = w\<lparr>pos := UndoNull env u (pos w)\<rparr> in
      if aborted env w1 then Some (Inl (0, pv, w1))
      else
        (let score = (if score0 \<ge> MAX_EVAL env then beta else score0) in
         if score \<ge> beta then
           (case (if new_depth > 6
                  then rec ply alpha beta (new_depth - 5) True last_move last_capt_sq pv w1
                  else Some (score, pv, w1)) of
              None \<Rightarrow> None
            | Some (score2, pv2, w2) \<Rightarrow>
                if aborted env w2 then Some (Inl (0, pv2, w2))
                else if score2 \<ge> beta then Some (Inl (score2, pv2, w2))
                else Search_razor env rec ply is_pv alpha beta depth was_null last_move
                       last_capt_sq fl_check fl_prunable eval True move ref_sq new_pv pv2 w2)
         else Search_razor env rec ply is_pv alpha beta depth was_null last_move
                last_capt_sq fl_check fl_prunable eval True move ref_sq new_pv pv w1))"

text \<open>
  NULL MOVE. The operands of both divisions are not negative where they are evaluated
  (\<open>depth > 1\<close> and \<open>eval \<ge> beta\<close>), so the division of C is \<open>div\<close>. The flag \<open>did_null\<close> is
  set before the jump to \<open>avoid_null\<close>.
\<close>

definition Search_null ::
  "('p, 'u, 'm, 'g) env \<Rightarrow> ('p, 'g) search_fn \<Rightarrow> int \<Rightarrow> bool \<Rightarrow> int \<Rightarrow> int \<Rightarrow> int \<Rightarrow> bool
   \<Rightarrow> int \<Rightarrow> int \<Rightarrow> bool \<Rightarrow> bool \<Rightarrow> int \<Rightarrow> int \<Rightarrow> int list
   \<Rightarrow> ('p, 'g) world \<Rightarrow> ('p, 'm, 'g) entered option" where
  "Search_null env rec ply is_pv alpha beta depth was_null last_move last_capt_sq fl_check
     fl_prunable eval move pv w =
     (if depth > 1 \<and> \<not> was_null \<and> fl_prunable \<and> MayNull env (pos w) \<and> eval \<ge> beta then
        (let new_depth = depth - ((823 + 67 * depth) div 256) - Min_int 3 ((eval - beta) div 200);
             rt = Retrieve_w env move alpha beta new_depth ply w;
             move1 = fst (snd rt);
             null_score = fst (snd (snd rt));
             w1 = snd (snd (snd rt))
         in if fst rt \<and> null_score < beta
            then Search_razor env rec ply is_pv alpha beta depth was_null last_move
                   last_capt_sq fl_check fl_prunable eval True move1 (- 1) (uninit_pv env) pv w1
            else
              (let dn = DoNull env (pos w1);
                   u = snd dn;
                   w2 = w1\<lparr>pos := fst dn\<rparr>
               in case (if new_depth \<le> 0
                        then Some (QuiesceChecks_w env (ply + 1) (- beta) (- beta + 1)
                                     (uninit_pv env) w2)
                        else rec (ply + 1) (- beta) (- beta + 1) new_depth True 0 (- 1)
                               (uninit_pv env) w2) of
                    None \<Rightarrow> None
                  | Some (v, new_pv, w3) \<Rightarrow>
                      (let rt2 = Retrieve_w env (- 1) alpha beta depth ply w3;
                           null_refutation = fst (snd rt2);
                           ref_sq = (if null_refutation > 0 then Tsq env null_refutation else - 1)
                       in null_done env rec ply is_pv alpha beta depth was_null last_move
                            last_capt_sq fl_check fl_prunable eval new_depth move1 u (- v)
                            ref_sq new_pv pv (snd (snd (snd rt2))))))
      else Search_razor env rec ply is_pv alpha beta depth was_null last_move last_capt_sq
             fl_check fl_prunable eval False move (- 1) (uninit_pv env) pv w)"

text \<open>
  CAN WE PRUNE THIS NODE, GET EVAL SCORE IF NEEDED, and BETA PRUNING / STATIC NULL MOVE
\<close>

definition Search_prune ::
  "('p, 'u, 'm, 'g) env \<Rightarrow> ('p, 'g) search_fn \<Rightarrow> int \<Rightarrow> bool \<Rightarrow> int \<Rightarrow> int \<Rightarrow> int \<Rightarrow> bool
   \<Rightarrow> int \<Rightarrow> int \<Rightarrow> int \<Rightarrow> int list \<Rightarrow> ('p, 'g) world \<Rightarrow> ('p, 'm, 'g) entered option" where
  "Search_prune env rec ply is_pv alpha beta depth was_null last_move last_capt_sq move pv w =
     (let fl_check = InCheck env (pos w);
          fl_prunable = (\<not> fl_check \<and> \<not> is_pv \<and> alpha > - MAX_EVAL env \<and> beta < MAX_EVAL env);
          ev = (if fl_prunable \<and> (\<not> was_null \<or> depth \<le> mscSelectiveDepth)
                then Evaluate_w env w else (0, w));
          eval = fst ev;
          w1 = snd ev;
          sc = eval - 120 * depth
      in if fl_prunable \<and> depth \<le> mscSnpDepth \<and> \<not> was_null \<and> sc > beta
         then Some (Inl (sc, pv, w1))
         else Search_null env rec ply is_pv alpha beta depth was_null last_move last_capt_sq
                fl_check fl_prunable eval move pv w1)"

text \<open>
  RETRIEVE MOVE FROM TRANSPOSITION TABLE and SAFEGUARD AGAINST REACHING MAX PLY LIMIT;
  \<open>move\<close> is 0 before the probe.
\<close>

definition Search_probe ::
  "('p, 'u, 'm, 'g) env \<Rightarrow> ('p, 'g) search_fn \<Rightarrow> int \<Rightarrow> bool \<Rightarrow> int \<Rightarrow> int \<Rightarrow> int \<Rightarrow> bool
   \<Rightarrow> int \<Rightarrow> int \<Rightarrow> int list \<Rightarrow> ('p, 'g) world \<Rightarrow> ('p, 'm, 'g) entered option" where
  "Search_probe env rec ply is_pv alpha beta depth was_null last_move last_capt_sq pv w =
     (let rt = Retrieve_w env 0 alpha beta depth ply w;
          found = fst rt;
          move = fst (snd rt);
          score = fst (snd (snd rt));
          w1 = snd (snd (snd rt));
          w2 = (if found \<and> score \<ge> beta then UpdateHistory_ev env last_move move depth ply w1
                else w1)
      in if found \<and> \<not> is_pv then Some (Inl (score, pv, w2))
         else if ply \<ge> MAX_PLY env - 1
         then (case Evaluate_w env w2 of (eval, w3) \<Rightarrow> Some (Inl (eval, pv, w3)))
         else Search_prune env rec ply is_pv alpha beta depth was_null last_move last_capt_sq
                move pv w2)"

text \<open>
  MATE DISTANCE PRUNING: \<open>Inl\<close> is the score returned, \<open>Inr\<close> the window with which
  the search goes on.
\<close>

definition mate_distance ::
  "('p, 'u, 'm, 'g) env \<Rightarrow> int \<Rightarrow> int \<Rightarrow> int \<Rightarrow> int + int \<times> int" where
  "mate_distance env ply alpha beta =
     (if ply \<noteq> 0 then
        (let checkmating_score = MATE env - ply;
             beta1 = (if checkmating_score < beta then checkmating_score else beta)
         in if checkmating_score < beta \<and> alpha \<ge> checkmating_score then Inl alpha
            else
              (let checkmated_score = - MATE env + ply;
                   alpha1 = (if checkmated_score > alpha then checkmated_score else alpha)
               in if checkmated_score > alpha \<and> beta1 \<le> checkmated_score then Inl beta1
                  else Inr (alpha1, beta1)))
      else Inr (alpha, beta))"

text \<open>
  QUIESCENCE SEARCH ENTRY POINT and EARLY EXIT AND NODE INITIALIZATION. The flag \<open>is_pv\<close>
  is computed from the window as passed, before mate-distance pruning.
\<close>

definition Search_enter ::
  "('p, 'u, 'm, 'g) env \<Rightarrow> ('p, 'g) search_fn \<Rightarrow> int \<Rightarrow> int \<Rightarrow> int \<Rightarrow> int \<Rightarrow> bool \<Rightarrow> int \<Rightarrow> int
   \<Rightarrow> int list \<Rightarrow> ('p, 'g) world \<Rightarrow> ('p, 'm, 'g) entered option" where
  "Search_enter env rec ply alpha beta depth was_null last_move last_capt_sq pv w =
     (let is_pv = (alpha \<noteq> beta - 1) in
      if depth \<le> 0 then Some (Inl (QuiesceChecks_w env ply alpha beta pv w))
      else
        (let w1 = w\<lparr>eng := Slowdown env (eng w)\<rparr> in
         if aborted env w1 then Some (Inl (0, pv, w1))
         else
           (let pv1 = (if ply \<noteq> 0 then pv_clear pv else pv) in
            if IsDraw env (pos w1) \<and> ply \<noteq> 0
            then Some (Inl (DrawScore (Par env (eng w1)) (mSide env (pos w1)), pv1, w1))
            else
              (case mate_distance env ply alpha beta of
                 Inl v \<Rightarrow> Some (Inl (v, pv1, w1))
               | Inr ab \<Rightarrow>
                   Search_probe env rec ply is_pv (fst ab) (snd ab) depth was_null last_move
                     last_capt_sq pv1 w1))))"

subsection \<open>cEngine::Search: after the main loop, and the whole function\<close>

text \<open>RETURN CORRECT CHECKMATE/STALEMATE SCORE and SAVE RESULT IN THE TRANSPOSITION TABLE\<close>

definition Search_finish ::
  "('p, 'u, 'm, 'g) env \<Rightarrow> node \<Rightarrow> ('p, 'm, 'g) lstate \<Rightarrow> ('p, 'g) result" where
  "Search_finish env nd ls =
     (let w = l_w ls; pv = l_pv ls; best = l_best ls in
      if best = - INFc env then
        ((if InCheck env (pos w) then - MATE env + n_ply nd
          else DrawScore (Par env (eng w)) (mSide env (pos w))), pv, w)
      else if pv_head pv \<noteq> 0 then
        (let w1 = (if \<not> n_fl_check nd
                   then history_block env (n_last_move nd) (pv_head pv) (n_depth nd) (n_ply nd)
                          (l_mv_played ls) w
                   else w)
         in (best, pv,
             Store_ev env (mHashKey env (pos w1)) (pv_head pv) best EXACT (n_depth nd) (n_ply nd) w1))
      else (best, pv, Store_ev env (mHashKey env (pos w)) 0 best UPPER (n_depth nd) (n_ply nd) w))"

text \<open>
  One frame, with \<open>rec\<close> for the recursive calls and \<open>k\<close> the bound on the iterations of
  its main loop.
\<close>

definition Search_body ::
  "('p, 'u, 'm, 'g) env \<Rightarrow> ('p, 'g) search_fn \<Rightarrow> nat \<Rightarrow> ('p, 'g) search_fn" where
  "Search_body env rec k ply alpha beta depth was_null last_move last_capt_sq pv w =
     (case Search_enter env rec ply alpha beta depth was_null last_move last_capt_sq pv w of
        None \<Rightarrow> None
      | Some (Inl r) \<Rightarrow> Some r
      | Some (Inr (nd, ls)) \<Rightarrow>
          (case main_loop env rec k nd ls of
             None \<Rightarrow> None
           | Some (Inl r) \<Rightarrow> Some r
           | Some (Inr ls') \<Rightarrow> Some (Search_finish env nd ls')))"

text \<open>
  \<open>Search env n\<close> is the function with the recursion cut at depth \<open>n\<close> of nested calls and
  \<open>n\<close> iterations of each main loop: \<open>None\<close> when that does not suffice.
\<close>

fun Search :: "('p, 'u, 'm, 'g) env \<Rightarrow> nat \<Rightarrow> ('p, 'g) search_fn" where
  "Search env 0 ply alpha beta depth was_null last_move last_capt_sq pv w = None"
| "Search env (Suc n) ply alpha beta depth was_null last_move last_capt_sq pv w =
     Search_body env (Search env n) n ply alpha beta depth was_null last_move last_capt_sq pv w"

text \<open>\<open>Widen\<close> on this \<open>Search\<close>.\<close>

definition Widen_engine ::
  "('p, 'u, 'm, 'g) env \<Rightarrow> nat \<Rightarrow> int \<Rightarrow> int list \<Rightarrow> int \<Rightarrow> ('p, 'g) world
   \<Rightarrow> ('p, 'g) result option" where
  "Widen_engine env n depth pv lastScore w =
     Widen (MAX_EVAL env) (INFc env)
       (\<lambda>alpha beta d pv' w'. Search env n 0 alpha beta d False (- 1) (- 1) pv' w')
       (\<lambda>w'. abort_search env (eng w')) depth pv lastScore w"

subsection \<open>A small instance\<close>

text \<open>
  An environment on which the functions above can be run: the position is the stack of
  the moves made, the generator a list of moves still to try, the rest of the engine the
  abort flag and the root depth. The transposition table is empty and never found, the
  evaluation and the quiescence search are constant, the move 13 is illegal, and with
  \<open>stop\<close> the abort flag is raised during a quiescence search.
\<close>

definition toy_env ::
  "bool \<Rightarrow> bool \<Rightarrow> int list \<Rightarrow> int \<Rightarrow> bool \<Rightarrow> (int list, unit, int list, bool \<times> int) env" where
  "toy_env draw chk moves q stop =
     \<lparr>MAX_PLY = 64, INFc = 32767, MATE = 32000, MAX_EVAL = 29999,
      MV_NORMAL = 7, MV_BADCAPT = 8, CASTLE = 1, NO_TP = 6, P_tp = 0,
      Fsq = (\<lambda>mv. mv mod 64), Tsq = (\<lambda>mv. (mv div 64) mod 64), MoveType = (\<lambda>mv. mv div 4096),
      on_rank_2_7 = (\<lambda>sq. sq div 8 = 1 \<or> sq div 8 = 6),
      IsDraw = (\<lambda>p. draw), InCheck = (\<lambda>p. chk), MayNull = (\<lambda>p. True),
      Illegal = (\<lambda>p. case p of [] \<Rightarrow> False | mv # _ \<Rightarrow> mv = 13), mSide = (\<lambda>p. int (length p) mod 2),
      mHashKey = (\<lambda>p. length p), pawns_on_7th = (\<lambda>p. False),
      TpOnSq = (\<lambda>p sq. 6), mPc = (\<lambda>p sq. 12),
      DoMove = (\<lambda>mv p. (mv # p, ())), UndoMove = (\<lambda>mv u p. tl p),
      DoNull = (\<lambda>p. (0 # p, ())), UndoNull = (\<lambda>u p. tl p),
      Slowdown = (\<lambda>g. g), abort_search = fst, mRootDepth = snd,
      set_mFlRootChoice = (\<lambda>g. g),
      Par = (\<lambda>g. \<lparr>prog_side = 0, draw_score = 10, hist_limit = 24576, shut_up = False\<rparr>),
      Retrieve = (\<lambda>key mv alpha beta depth ply g. (False, mv, 0, g)),
      RetrieveMove = (\<lambda>key mv g. mv),
      Trans_Store = (\<lambda>key mv score bd depth ply g. g),
      Evaluate = (\<lambda>p g. (q, g)),
      QuiesceChecks = (\<lambda>ply alpha beta pv p g. (q, pv_clear pv, p, (fst g \<or> stop, snd g))),
      UpdateHistory = (\<lambda>p lm mv depth ply g. g),
      DecreaseHistory = (\<lambda>p mv depth g. g),
      mHistory = (\<lambda>g pc sq. 0),
      Refutation = (\<lambda>mv g. 0),
      InitMoves = (\<lambda>p mv refut ref_sq ply g. moves),
      NextMove = (\<lambda>m p g. case m of [] \<Rightarrow> (0, 0, []) | mv # r \<Rightarrow> (mv, 7, r)),
      msLmrSize = (\<lambda>i. 0),
      uninit_pv = []\<rparr>"

definition toy_world :: "bool \<Rightarrow> (int list, bool \<times> int) world" where
  "toy_world ab = \<lparr>pos = [], eng = (ab, 5), log = []\<rparr>"

subsection \<open>The aspiration loop, as a description\<close>

text \<open>
  The behaviour of \<open>Widen\<close> written from its description, to be compared with the
  definition taken from the code: the margins are given as a list; for each margin in
  turn the search is called with the window around \<open>lastScore\<close>; the loop is left
  when \<open>Glob.abort_search\<close> is set, the score is returned when it lies strictly inside
  the window, the loop is left when the score exceeds \<open>MAX_EVAL\<close>.
\<close>

fun Widen_margins ::
  "int \<Rightarrow> 'w root_search \<Rightarrow> ('w \<Rightarrow> bool) \<Rightarrow> int \<Rightarrow> int \<Rightarrow> int list \<Rightarrow> int list \<Rightarrow> 'w
   \<Rightarrow> ((int + unit) \<times> int list \<times> 'w) option" where
  "Widen_margins me srch ab depth lastScore [] pv w = Some (Inr (), pv, w)"
| "Widen_margins me srch ab depth lastScore (margin # ms) pv w =
     (case srch (lastScore - margin) (lastScore + margin) depth pv w of
        None \<Rightarrow> None
      | Some (v, pv', w') \<Rightarrow>
          if ab w' then Some (Inr (), pv', w')
          else if lastScore - margin < v \<and> v < lastScore + margin then Some (Inl v, pv', w')
          else if v > me then Some (Inr (), pv', w')
          else Widen_margins me srch ab depth lastScore ms pv' w')"

definition Widen_described ::
  "int \<Rightarrow> int \<Rightarrow> 'w root_search \<Rightarrow> ('w \<Rightarrow> bool) \<Rightarrow> int \<Rightarrow> int list \<Rightarrow> int \<Rightarrow> 'w
   \<Rightarrow> (int \<times> int list \<times> 'w) option" where
  "Widen_described me infty srch ab depth pv lastScore w =
     (if depth > 6 \<and> lastScore < me then
        (case Widen_margins me srch ab depth lastScore [8, 16, 32, 64, 128, 256] pv w of
           None \<Rightarrow> None
         | Some (Inl v, pv', w') \<Rightarrow> Some (v, pv', w')
         | Some (Inr u, pv', w') \<Rightarrow> srch (- infty) infty depth pv' w')
      else srch (- infty) infty depth pv w)"

subsection \<open>Contracts of the collaborators\<close>

text \<open>
  What \<open>Search\<close> expects of the position module and of the quiescence search:
  \<open>UndoMove\<close> after \<open>DoMove\<close> and \<open>UndoNull\<close> after \<open>DoNull\<close>, with the undo data written
  by the latter, give the position back, and \<open>QuiesceChecks\<close> leaves the position as
  it found it.
\<close>

definition undo_restores :: "('p, 'u, 'm, 'g) env \<Rightarrow> bool" where
  "undo_restores env =
     ((\<forall>mv p. UndoMove env mv (snd (DoMove env mv p)) (fst (DoMove env mv p)) = p)
    \<and> (\<forall>p. UndoNull env (snd (DoNull env p)) (fst (DoNull env p)) = p)
    \<and> (\<forall>ply alpha beta pv p g.
          fst (snd (snd (QuiesceChecks env ply alpha beta pv p g))) = p))"

text \<open>A search function that returns with the position it was called with.\<close>

definition keeps_pos :: "('p, 'g) search_fn \<Rightarrow> bool" where
  "keeps_pos rec =
     (\<forall>ply alpha beta depth wn lm lc pv w v pv' w'.
        rec ply alpha beta depth wn lm lc pv w = Some (v, pv', w') \<longrightarrow> pos w' = pos w)"

text \<open>The state in which a phase or a loop iteration ends, however it ends.\<close>

definition entered_world :: "('p, 'm, 'g) entered \<Rightarrow> ('p, 'g) world" where
  "entered_world x = (case x of Inl r \<Rightarrow> snd (snd r) | Inr nl \<Rightarrow> l_w (snd nl))"

definition step_world :: "('p, 'g) result + ('p, 'm, 'g) lstate \<Rightarrow> ('p, 'g) world" where
  "step_world x = (case x of Inl r \<Rightarrow> snd (snd r) | Inr ls \<Rightarrow> l_w ls)"

subsection \<open>The locals at the start of the main loop\<close>

text \<open>
  What the code before the main loop has established when the loop starts: \<open>nd\<close> and
  \<open>ls\<close> hold the arguments and flags of the frame, \<open>best\<close> is \<open>-INF\<close> and no move has
  been tried.
\<close>

definition frame_start ::
  "('p, 'u, 'm, 'g) env \<Rightarrow> int \<Rightarrow> bool \<Rightarrow> int \<Rightarrow> int \<Rightarrow> int \<Rightarrow> int \<Rightarrow> bool \<Rightarrow> bool \<Rightarrow> bool
   \<Rightarrow> node \<Rightarrow> ('p, 'm, 'g) lstate \<Rightarrow> bool" where
  "frame_start env ply is_pv alpha beta depth lm chk pr dn nd ls =
     (n_ply nd = ply \<and> n_is_pv nd = is_pv \<and> n_beta nd = beta \<and> n_depth nd = depth
      \<and> n_last_move nd = lm \<and> n_fl_check nd = chk \<and> n_fl_prunable nd = pr
      \<and> n_did_null nd = dn \<and> l_alpha ls = alpha \<and> l_best ls = - INFc env
      \<and> l_mv_played ls = [] \<and> l_mv_tried ls = 0)"

subsection \<open>An invariant of the main loop\<close>

text \<open>
  With \<open>a0\<close> the value of \<open>alpha\<close> when the loop starts: \<open>best\<close> is \<open>-INF\<close> or a score
  below \<open>beta\<close> and not above \<open>alpha\<close>; \<open>alpha\<close> never decreases; once a move has raised
  \<open>alpha\<close>, \<open>best\<close> and \<open>alpha\<close> are equal.
\<close>

definition loop_inv ::
  "('p, 'u, 'm, 'g) env \<Rightarrow> node \<Rightarrow> int \<Rightarrow> ('p, 'm, 'g) lstate \<Rightarrow> bool" where
  "loop_inv env nd a0 ls =
     ((l_best ls = - INFc env \<or> l_best ls < n_beta nd)
    \<and> (l_best ls = - INFc env \<or> l_best ls \<le> l_alpha ls)
    \<and> a0 \<le> l_alpha ls
    \<and> (l_alpha ls \<noteq> a0 \<longrightarrow> l_best ls = l_alpha ls))"

subsection \<open>The calls made by Widen\<close>

text \<open>
  A richer wrapper, to observe a run of \<open>Widen\<close> call by call: the state carries, for
  each call of the search made so far, the window requested, the score returned and
  the value of \<open>Glob.abort_search\<close> after the call.
\<close>

definition traced ::
  "'w root_search \<Rightarrow> ('w \<Rightarrow> bool) \<Rightarrow> ('w \<times> (int \<times> int \<times> int \<times> bool) list) root_search" where
  "traced srch ab alpha beta depth pv wt =
     (case srch alpha beta depth pv (fst wt) of
        None \<Rightarrow> None
      | Some (v, pv', w') \<Rightarrow> Some (v, pv', (w', snd wt @ [(alpha, beta, v, ab w')])))"

text \<open>
  A call of the trace has failed outside its window, without a mate score and without
  abort.
\<close>

definition failed_outside :: "int \<Rightarrow> int \<times> int \<times> int \<times> bool \<Rightarrow> bool" where
  "failed_outside me c =
     (case c of (a, b, v, abt) \<Rightarrow> \<not> (a < v \<and> v < b) \<and> v \<le> me \<and> \<not> abt)"

definition window_of :: "int \<times> int \<times> int \<times> bool \<Rightarrow> int \<times> int" where
  "window_of c = (fst c, fst (snd c))"

subsection \<open>A second small instance\<close>

text \<open>
  The same instance with one move per position, where the value of the quiescence
  search depends on the ply and the static evaluation is given apart.
\<close>

definition toy_env_ply ::
  "(int \<Rightarrow> int) \<Rightarrow> int \<Rightarrow> (int list, unit, int list, bool \<times> int) env" where
  "toy_env_ply qf ev =
     (toy_env False False [100] 0 False)
       \<lparr>Evaluate := (\<lambda>p g. (ev, g)),
        QuiesceChecks := (\<lambda>ply alpha beta pv p g. (qf ply, pv_clear pv, p, g))\<rparr>"

subsection \<open>The main loop after some iterations\<close>


section \<open>Properties\<close>

subsection \<open>Evaluation\<close>

text \<open>The definitions unfolded to run a search on a concrete instance.\<close>

lemmas phase_defs = Search_body_def Search_enter_def Search_probe_def Search_prune_def
  Search_null_def null_done_def Search_razor_def Search_iid_def Search_init_def Search_finish_def
  loop_body_def move_done_def futility_flag_def played_def extend_def futility_prune_def
  late_move_prune_def sherwin_def lmr_def research_def pvs_def mate_distance_def
  aborted_def QuiesceChecks_w_def Evaluate_w_def Retrieve_w_def Store_ev_def
  UpdateHistory_ev_def DecreaseHistory_ev_def history_block_def DrawScore_def
  pv_head_def pv_clear_def BuildPv_def Let_def
  mscFutDepth_def mscFutMargin_def mscSnpDepth_def mscRazorDepth_def mscSelectiveDepth_def
  mscRazorMargin_def Min_int_def

lemmas toy_defs = toy_env_def toy_world_def

subsection \<open>Unfolding one frame\<close>

lemma Search_enter_Inl:
  "Search_enter env (Search env n) ply alpha beta depth wn lm lc pv w = Some (Inl r)
   \<Longrightarrow> Search env (Suc n) ply alpha beta depth wn lm lc pv w = Some r"
  by (simp add: Search_body_def)

lemma Search_enter_draw:
  assumes "0 < depth" "ply \<noteq> 0" "\<not> aborted env (w\<lparr>eng := Slowdown env (eng w)\<rparr>)"
    "IsDraw env (pos w)"
  shows "Search_enter env rec ply alpha beta depth wn lm lc pv w =
     Some (Inl (DrawScore (Par env (Slowdown env (eng w))) (mSide env (pos w)), pv_clear pv,
                w\<lparr>eng := Slowdown env (eng w)\<rparr>))"
  using assms by (simp add: Search_enter_def Let_def)

subsection \<open>The draw score\<close>

text \<open>
  Claim C10. \<open>POS::DrawScore\<close> returns \<open>-Par.draw_score\<close> when the side to move is the
  program's side and \<open>Par.draw_score\<close> otherwise, and this is the value that \<open>Search\<close>
  returns for a rule-draw position at \<open>ply > 0\<close>: it depends on the side to move.
\<close>

theorem Search_draw_score_by_side:
  assumes "0 < depth" "ply \<noteq> 0" "\<not> aborted env (w\<lparr>eng := Slowdown env (eng w)\<rparr>)"
    "IsDraw env (pos w)"
  shows "Search env (Suc n) ply alpha beta depth was_null last_move last_capt_sq pv w =
       Some (DrawScore (Par env (Slowdown env (eng w))) (mSide env (pos w)), pv_clear pv,
             w\<lparr>eng := Slowdown env (eng w)\<rparr>)
     \<and> DrawScore P s = (if s = prog_side P then - draw_score P else draw_score P)"
  using Search_enter_Inl [OF Search_enter_draw [OF assms]] by (simp add: DrawScore_def)

theorem Search_draw_score_by_side_witness:
  "Search (toy_env True False [100] 0 False) 1 1 10 20 1 False (- 1) (- 1) [5, 0] (toy_world False)
     = Some (- 10, [0, 0], toy_world False)
   \<and> Search (toy_env True False [100] 0 False) 1 2 10 20 1 False (- 1) (- 1) [5, 0]
       ((toy_world False)\<lparr>pos := [100]\<rparr>)
     = Some (10, [0, 0], (toy_world False)\<lparr>pos := [100]\<rparr>)"
proof -
  let ?e = "toy_env True False [100] 0 False"
  have a: "\<And>w. \<not> aborted ?e ((toy_world False)\<lparr>pos := w, eng := Slowdown ?e (eng (toy_world False))\<rparr>)"
    by (simp add: aborted_def toy_env_def toy_world_def)
  have d: "\<And>p. IsDraw ?e p" by (simp add: toy_env_def)
  have 1: "Search ?e (Suc 0) 1 10 20 1 False (- 1) (- 1) [5, 0] (toy_world False)
     = Some (- 10, [0, 0], toy_world False)"
    using Search_draw_score_by_side [of 1 1 ?e "toy_world False" 0 10 20 False "- 1" "- 1" "[5, 0]"]
      a [of "[]"] d
    by (simp add: toy_env_def toy_world_def DrawScore_def pv_clear_def aborted_def)
  have 2: "Search ?e (Suc 0) 2 10 20 1 False (- 1) (- 1) [5, 0] ((toy_world False)\<lparr>pos := [100]\<rparr>)
     = Some (10, [0, 0], (toy_world False)\<lparr>pos := [100]\<rparr>)"
    using Search_draw_score_by_side [of 1 2 ?e "(toy_world False)\<lparr>pos := [100]\<rparr>" 0 10 20 False "- 1" "- 1" "[5, 0]"]
      d
    by (simp add: toy_env_def toy_world_def DrawScore_def pv_clear_def aborted_def)
  from 1 2 show ?thesis by simp
qed

subsection \<open>Mate-distance pruning\<close>

lemma Search_enter_mdp:
  assumes "0 < depth" "\<not> aborted env (w\<lparr>eng := Slowdown env (eng w)\<rparr>)"
    "\<not> (IsDraw env (pos w) \<and> ply \<noteq> 0)"
  shows "Search_enter env rec ply alpha beta depth wn lm lc pv w =
     (case mate_distance env ply alpha beta of
        Inl v \<Rightarrow> Some (Inl (v, (if ply \<noteq> 0 then pv_clear pv else pv), w\<lparr>eng := Slowdown env (eng w)\<rparr>))
      | Inr ab \<Rightarrow> Search_probe env rec ply (alpha \<noteq> beta - 1) (fst ab) (snd ab) depth wn lm lc
                   (if ply \<noteq> 0 then pv_clear pv else pv) (w\<lparr>eng := Slowdown env (eng w)\<rparr>))"
  using assms by (auto simp add: Search_enter_def Let_def)

text \<open>
  Claim C7. In a call with \<open>ply > 0\<close> that is not aborted and not a rule draw: if
  \<open>MATE - ply < beta\<close> then \<open>beta\<close> becomes \<open>MATE - ply\<close>, and \<open>alpha\<close> is returned at once
  when \<open>alpha \<ge> MATE - ply\<close>; then, if \<open>-MATE + ply > alpha\<close>, \<open>alpha\<close> becomes
  \<open>-MATE + ply\<close>, and \<open>beta\<close> is returned at once when \<open>beta \<le> -MATE + ply\<close>; otherwise
  the search goes on with the tightened window. At \<open>ply = 0\<close> the window is passed on
  as it is.
\<close>

theorem Search_mate_distance_pruning:
  assumes "0 < depth" "\<not> aborted env (w\<lparr>eng := Slowdown env (eng w)\<rparr>)"
    "\<not> (IsDraw env (pos w) \<and> ply \<noteq> 0)"
  shows
    "(let w1 = w\<lparr>eng := Slowdown env (eng w)\<rparr>;
          checkmating_score = MATE env - ply;
          checkmated_score = - MATE env + ply;
          beta1 = (if checkmating_score < beta then checkmating_score else beta);
          alpha1 = (if checkmated_score > alpha then checkmated_score else alpha)
      in (ply \<noteq> 0 \<and> checkmating_score < beta \<and> alpha \<ge> checkmating_score \<longrightarrow>
            Search env (Suc n) ply alpha beta depth was_null last_move last_capt_sq pv w
              = Some (alpha, pv_clear pv, w1))
       \<and> (ply \<noteq> 0 \<and> \<not> (checkmating_score < beta \<and> alpha \<ge> checkmating_score)
            \<and> checkmated_score > alpha \<and> beta1 \<le> checkmated_score \<longrightarrow>
            Search env (Suc n) ply alpha beta depth was_null last_move last_capt_sq pv w
              = Some (beta1, pv_clear pv, w1))
       \<and> (ply \<noteq> 0 \<and> \<not> (checkmating_score < beta \<and> alpha \<ge> checkmating_score)
            \<and> \<not> (checkmated_score > alpha \<and> beta1 \<le> checkmated_score) \<longrightarrow>
            Search_enter env rec ply alpha beta depth was_null last_move last_capt_sq pv w
              = Search_probe env rec ply (alpha \<noteq> beta - 1) alpha1 beta1 depth was_null
                  last_move last_capt_sq (pv_clear pv) w1)
       \<and> (ply = 0 \<longrightarrow>
            Search_enter env rec ply alpha beta depth was_null last_move last_capt_sq pv w
              = Search_probe env rec ply (alpha \<noteq> beta - 1) alpha beta depth was_null
                  last_move last_capt_sq pv w1))"
proof -
  let ?w1 = "w\<lparr>eng := Slowdown env (eng w)\<rparr>"
  let ?cm = "MATE env - ply" and ?cd = "- MATE env + ply"
  let ?b1 = "if ?cm < beta then ?cm else beta"
  let ?a1 = "if ?cd > alpha then ?cd else alpha"
  note e = Search_enter_mdp [OF assms]
  have 1: "Search env (Suc n) ply alpha beta depth was_null last_move last_capt_sq pv w
        = Some (alpha, pv_clear pv, ?w1)"
    if "ply \<noteq> 0" "?cm < beta" "alpha \<ge> ?cm"
  proof -
    have "mate_distance env ply alpha beta = Inl alpha"
      using that by (simp add: mate_distance_def Let_def)
    then show ?thesis using that by (intro Search_enter_Inl) (simp add: e)
  qed
  have 2: "Search env (Suc n) ply alpha beta depth was_null last_move last_capt_sq pv w
        = Some (?b1, pv_clear pv, ?w1)"
    if "ply \<noteq> 0" "\<not> (?cm < beta \<and> alpha \<ge> ?cm)" "?cd > alpha" "?b1 \<le> ?cd"
  proof -
    have "mate_distance env ply alpha beta = Inl ?b1"
      using that unfolding mate_distance_def Let_def by (simp only: if_True if_False simp_thms)
    then show ?thesis using that(1) by (intro Search_enter_Inl) (simp add: e)
  qed
  have 3: "Search_enter env rec ply alpha beta depth was_null last_move last_capt_sq pv w
        = Search_probe env rec ply (alpha \<noteq> beta - 1) ?a1 ?b1 depth was_null
            last_move last_capt_sq (pv_clear pv) ?w1"
    if "ply \<noteq> 0" "\<not> (?cm < beta \<and> alpha \<ge> ?cm)" "\<not> (?cd > alpha \<and> ?b1 \<le> ?cd)"
  proof -
    have "mate_distance env ply alpha beta = Inr (?a1, ?b1)"
      using that unfolding mate_distance_def Let_def by (simp only: if_True if_False simp_thms)
    then show ?thesis using that(1) by (simp add: e)
  qed
  have 4: "Search_enter env rec ply alpha beta depth was_null last_move last_capt_sq pv w
        = Search_probe env rec ply (alpha \<noteq> beta - 1) alpha beta depth was_null
            last_move last_capt_sq pv ?w1"
    if "ply = 0"
  proof -
    have "mate_distance env ply alpha beta = Inr (alpha, beta)"
      using that by (simp add: mate_distance_def)
    then show ?thesis using that e by simp
  qed
  show ?thesis
    unfolding Let_def using 1 2 3 4 by blast
qed

theorem Search_mate_distance_pruning_witness:
  "Search (toy_env False False [100] 0 False) 1 1 32100 32500 1 False (- 1) (- 1) [5, 0] (toy_world False)
     = Some (32100, [0, 0], toy_world False)
   \<and> Search (toy_env False False [100] 0 False) 1 1 (- 32500) (- 32100) 1 False (- 1) (- 1) [5, 0]
       (toy_world False)
     = Some (- 32100, [0, 0], toy_world False)
   \<and> Search (toy_env False False [100] 0 False) 1 1 (- 32500) 32500 1 False (- 1) (- 1) [5, 0]
       (toy_world False)
     = Search (toy_env False False [100] 0 False) 1 1 (- 31999) 31999 1 False (- 1) (- 1) [5, 0]
       (toy_world False)"
proof -
  let ?e = "toy_env False False [100] 0 False"
  have a: "\<not> aborted ?e ((toy_world False)\<lparr>eng := Slowdown ?e (eng (toy_world False))\<rparr>)"
    by (simp add: aborted_def toy_env_def toy_world_def)
  have d: "\<not> (IsDraw ?e (pos (toy_world False)) \<and> (1::int) \<noteq> 0)" by (simp add: toy_env_def)
  have m: "MATE ?e = 32000" by (simp add: toy_env_def)
  have s: "(toy_world False)\<lparr>eng := Slowdown ?e (eng (toy_world False))\<rparr> = toy_world False"
    by (simp add: toy_env_def toy_world_def)
  have 1: "Search ?e (Suc 0) 1 32100 32500 1 False (- 1) (- 1) [5, 0] (toy_world False)
     = Some (32100, [0, 0], toy_world False)"
    using Search_mate_distance_pruning [of 1 ?e "toy_world False" 1 32500 32100 0 False "- 1" "- 1" "[5, 0]", OF _ a d]
    by (simp add: m s pv_clear_def Let_def)
  have 2: "Search ?e (Suc 0) 1 (- 32500) (- 32100) 1 False (- 1) (- 1) [5, 0] (toy_world False)
     = Some (- 32100, [0, 0], toy_world False)"
    using Search_mate_distance_pruning [of 1 ?e "toy_world False" 1 "- 32100" "- 32500" 0 False "- 1" "- 1" "[5, 0]", OF _ a d]
    by (simp add: m s pv_clear_def Let_def)
  have 3: "Search_enter ?e (Search ?e 0) 1 (- 32500) 32500 1 False (- 1) (- 1) [5, 0] (toy_world False)
     = Search_probe ?e (Search ?e 0) 1 True (- 31999) 31999 1 False (- 1) (- 1) [0, 0] (toy_world False)"
    using Search_mate_distance_pruning [of 1 ?e "toy_world False" 1 32500 "- 32500" 0 False "- 1" "- 1" "[5, 0]" "Search ?e 0", OF _ a d]
    by (simp add: m s pv_clear_def Let_def)
  have 4: "Search_enter ?e (Search ?e 0) 1 (- 31999) 31999 1 False (- 1) (- 1) [5, 0] (toy_world False)
     = Search_probe ?e (Search ?e 0) 1 True (- 31999) 31999 1 False (- 1) (- 1) [0, 0] (toy_world False)"
    using Search_mate_distance_pruning [of 1 ?e "toy_world False" 1 31999 "- 31999" 0 False "- 1" "- 1" "[5, 0]" "Search ?e 0", OF _ a d]
    by (simp add: m s pv_clear_def Let_def)
  from 1 2 3 4 show ?thesis by (simp add: Search_body_def)
qed

subsection \<open>The table of late move reductions\<close>

lemma InitSearch_cell_lookup:
  "InitSearch_cell t dp mv (k, d, m) =
     (if d = dp \<and> m = mv \<and> k = 0 then min (lmr_r dp mv) (int dp - 1)
      else if d = dp \<and> m = mv \<and> k = 1 then min (lmr_r dp mv - 1) (int dp - 1)
      else t (k, d, m))"
  by (auto simp add: InitSearch_cell_def Let_def)

lemma InitSearch_row_lookup:
  "fold (\<lambda>mv t. InitSearch_cell t dp mv) [0..<n] t (k, d, m) =
     (if d = dp \<and> m < n \<and> k = 0 then min (lmr_r dp m) (int dp - 1)
      else if d = dp \<and> m < n \<and> k = 1 then min (lmr_r dp m - 1) (int dp - 1)
      else t (k, d, m))"
proof (induction n arbitrary: k d m)
  case 0
  show ?case by simp
next
  case (Suc n)
  show ?case
    by (simp add: InitSearch_cell_lookup Suc less_Suc_eq)
qed

lemma InitSearch_lookup:
  "InitSearch max_ply max_moves t (k, d, m) =
     (if d < max_ply \<and> m < max_moves \<and> k = 0 then min (lmr_r d m) (int d - 1)
      else if d < max_ply \<and> m < max_moves \<and> k = 1 then min (lmr_r d m - 1) (int d - 1)
      else t (k, d, m))"
  unfolding InitSearch_def
proof (induction max_ply arbitrary: k d m)
  case 0
  show ?case by simp
next
  case (Suc n)
  show ?case
    by (simp add: InitSearch_row_lookup Suc less_Suc_eq)
qed

lemma lmr_r_nonneg: "0 \<le> lmr_r dp mv"
proof (cases "dp \<noteq> 0 \<and> mv \<noteq> 0")
  case True
  then have "0 \<le> ln (real dp)" and "0 \<le> ln (real_of_int (Min_int (int mv) 63))"
    by (simp_all add: Min_int_def)
  then have "0 \<le> ln (real dp) * ln (real_of_int (Min_int (int mv) 63)) / 2"
    by simp
  then show ?thesis using True by (simp add: lmr_r_def c_int_def)
next
  case False
  then show ?thesis by (auto simp add: lmr_r_def)
qed

lemma lmr_r_floor:
  "lmr_r dp mv =
     (if 0 < dp \<and> 0 < mv then \<lfloor>ln (real dp) * ln (real (min mv 63)) / 2\<rfloor> else 0)"
proof (cases "dp \<noteq> 0 \<and> mv \<noteq> 0")
  case True
  then have "0 \<le> ln (real dp)" and "0 \<le> ln (real_of_int (Min_int (int mv) 63))"
    by (simp_all add: Min_int_def)
  then have "0 \<le> ln (real dp) * ln (real_of_int (Min_int (int mv) 63)) / 2"
    by simp
  moreover have "real_of_int (Min_int (int mv) 63) = real (min mv 63)"
    by (simp add: Min_int_def min_def)
  ultimately show ?thesis using True by (simp add: lmr_r_def c_int_def)
next
  case False
  then show ?thesis by (auto simp add: lmr_r_def)
qed

text \<open>
  Claim C3, as the code has it. After \<open>InitSearch\<close>, for every \<open>d\<close> in \<open>[0, MAX_PLY)\<close> and
  \<open>m\<close> in \<open>[0, MAX_MOVES)\<close>, with \<open>r = floor(ln(d) * ln(min(m, 63)) / 2)\<close> when \<open>d > 0\<close>
  and \<open>m > 0\<close> and \<open>r = 0\<close> otherwise: the entry for zero-window nodes is \<open>r\<close> and the
  entry for PV nodes is \<open>r - 1\<close>, each clamped to \<open>d - 1\<close>; every entry lies between
  \<open>-1\<close> and \<open>max(0, d-1)\<close>, and the entries for zero-window nodes with \<open>d > 0\<close> are not
  negative.
\<close>

theorem InitSearch_entries:
  assumes "d < max_ply" "m < max_moves"
  shows "(let T = InitSearch max_ply max_moves t; r = lmr_r d m in
          T (0, d, m) = min r (int d - 1)
        \<and> T (1, d, m) = min (r - 1) (int d - 1)
        \<and> (\<forall>k<2. - 1 \<le> T (k, d, m) \<and> T (k, d, m) \<le> max 0 (int d - 1))
        \<and> (0 < d \<longrightarrow> 0 \<le> T (0, d, m))
        \<and> r = (if 0 < d \<and> 0 < m then \<lfloor>ln (real d) * ln (real (min m 63)) / 2\<rfloor> else 0))"
proof -
  let ?T = "InitSearch max_ply max_moves t"
  have 0: "?T (0, d, m) = min (lmr_r d m) (int d - 1)"
    using assms by (simp add: InitSearch_lookup)
  have 1: "?T (1, d, m) = min (lmr_r d m - 1) (int d - 1)"
    using assms by (simp add: InitSearch_lookup)
  have k: "k = 0 \<or> k = 1" if "k < 2" for k :: nat using that by auto
  have b: "- 1 \<le> ?T (k, d, m) \<and> ?T (k, d, m) \<le> max 0 (int d - 1)" if "k < 2" for k
    using k [OF that] 0 1 lmr_r_nonneg [of d m] by auto
  have p: "0 < d \<Longrightarrow> 0 \<le> ?T (0, d, m)"
    using 0 lmr_r_nonneg [of d m] by auto
  show ?thesis
    unfolding Let_def using 0 1 b p lmr_r_floor [of d m] by blast
qed

theorem InitSearch_entries_witness:
  "InitSearch 64 256 (\<lambda>i. 0) (0, 1, 1) = 0 \<and> InitSearch 64 256 (\<lambda>i. 0) (1, 1, 1) = - 1
   \<and> InitSearch 64 256 (\<lambda>i. 0) (0, 63, 255) \<le> 62"
proof -
  have r: "lmr_r 1 1 = 0" by (simp add: lmr_r_def c_int_def)
  have a: "(1::nat) < 64" "(1::nat) < 256" "(63::nat) < 64" "(255::nat) < 256" by simp_all
  show ?thesis
    using InitSearch_entries [OF a(1) a(2), of "\<lambda>i. 0"] InitSearch_entries [OF a(3) a(4), of "\<lambda>i. 0"]
    by (simp add: Let_def r)
qed

theorem InitSearch_negative_entry:
  "\<not> (0 \<le> InitSearch 64 256 (\<lambda>i. 0) (1, 0, 0)) \<and> \<not> (0 \<le> InitSearch 64 256 (\<lambda>i. 0) (0, 0, 0))"
  by (simp add: InitSearch_lookup lmr_r_def)

subsection \<open>The aspiration windows\<close>

lemma Widen_loop_end:
  "\<not> margin < 500 \<Longrightarrow> Widen_loop me srch ab depth ls margin cv pv w = Some (Inr (), pv, w)"
  by (subst Widen_loop.simps) simp

lemma Widen_loop_step:
  assumes "margin < 500"
    and "\<And>cv pv w. Widen_loop me srch ab depth ls (margin * 2) cv pv w
            = Widen_margins me srch ab depth ls ms pv w"
  shows "Widen_loop me srch ab depth ls margin cv pv w
           = Widen_margins me srch ab depth ls (margin # ms) pv w"
  using assms(1)
  by (subst Widen_loop.simps) (auto simp add: assms(2) Let_def split: option.split prod.split)

lemma Widen_loop_8:
  "Widen_loop me srch ab depth ls 8 cv pv w
     = Widen_margins me srch ab depth ls [8, 16, 32, 64, 128, 256] pv w"
proof -
  have 512: "\<And>cv pv w. Widen_loop me srch ab depth ls (256 * 2) cv pv w
      = Widen_margins me srch ab depth ls [] pv w"
    by (simp add: Widen_loop_end)
  have 256: "\<And>cv pv w. Widen_loop me srch ab depth ls (128 * 2) cv pv w
      = Widen_margins me srch ab depth ls [256] pv w"
    using Widen_loop_step [of 256, OF _ 512] by simp
  have 128: "\<And>cv pv w. Widen_loop me srch ab depth ls (64 * 2) cv pv w
      = Widen_margins me srch ab depth ls [128, 256] pv w"
    using Widen_loop_step [of 128, OF _ 256] by simp
  have 64: "\<And>cv pv w. Widen_loop me srch ab depth ls (32 * 2) cv pv w
      = Widen_margins me srch ab depth ls [64, 128, 256] pv w"
    using Widen_loop_step [of 64, OF _ 128] by simp
  have 32: "\<And>cv pv w. Widen_loop me srch ab depth ls (16 * 2) cv pv w
      = Widen_margins me srch ab depth ls [32, 64, 128, 256] pv w"
    using Widen_loop_step [of 32, OF _ 64] by simp
  have 16: "\<And>cv pv w. Widen_loop me srch ab depth ls (8 * 2) cv pv w
      = Widen_margins me srch ab depth ls [16, 32, 64, 128, 256] pv w"
    using Widen_loop_step [of 16, OF _ 32] by simp
  show ?thesis
    using Widen_loop_step [of 8, OF _ 16] by simp
qed

lemma Widen_unfold:
  "Widen me infty srch ab depth pv lastScore w = Widen_described me infty srch ab depth pv lastScore w"
  by (simp add: Widen_def Widen_described_def Widen_loop_8)


text \<open>
  Claim C4, as the code has it. \<open>Widen\<close> enters the aspiration loop exactly when
  \<open>depth > 6\<close> and \<open>lastScore < MAX_EVAL\<close>. In the loop it calls \<open>Search\<close> with the window
  \<open>[lastScore - margin, lastScore + margin]\<close> for the margins 8, 16, 32, 64, 128, 256 in
  turn; after each call it leaves the loop if \<open>Glob.abort_search\<close> is set, else returns
  the score if it lies strictly inside the window, else leaves the loop if the score
  exceeds \<open>MAX_EVAL\<close>. Whenever the loop is not entered or is left, one search with the
  window \<open>[-INF, +INF]\<close> follows and its score is returned.
\<close>

theorem Widen_refines_description:
  "Widen me infty srch ab depth pv lastScore w
     = Widen_described me infty srch ab depth pv lastScore w"
  by (rule Widen_unfold)

theorem Widen_asymmetric_counterexample:
  "Widen 29999 32767 (logged (\<lambda>a b d pv w. Some (- 30000, pv, w))) (\<lambda>w. False) 7 []
       (- 30000) ((), [])
     = Some (- 30000, [], ((), [(- 30008, - 29992)]))
   \<and> \<not> \<bar>- 30000\<bar> \<le> (29999::int)
   \<and> Widen 29999 32767 (logged (\<lambda>a b d pv w. Some (- 30000, pv, w))) (\<lambda>w. False) 7 []
       0 ((), [])
     = Some (- 30000, [], ((), [(- 8, 8), (- 16, 16), (- 32, 32), (- 64, 64), (- 128, 128),
                               (- 256, 256), (- 32767, 32767)]))"
  by (simp add: Widen_unfold Widen_described_def logged_def)

lemma Widen_margins_traced:
  assumes "Widen_margins me (traced srch ab) (\<lambda>wt. ab (fst wt)) depth ls ms pv (w, tr0)
           = Some (x, pv', (w', tr))"
  shows "\<exists>new. tr = tr0 @ new
           \<and> (\<forall>c \<in> set new. \<exists>m \<in> set ms. window_of c = (ls - m, ls + m))
           \<and> ((\<forall>c \<in> set new. failed_outside me c)
                \<longrightarrow> x = Inr () \<and> map window_of new = map (\<lambda>m. (ls - m, ls + m)) ms)"
  using assms
proof (induction ms arbitrary: pv w tr0)
  case Nil
  then show ?case by simp
next
  case (Cons m ms)
  from Cons.prems obtain v pv1 w1 where
    s: "srch (ls - m) (ls + m) depth pv w = Some (v, pv1, w1)"
    by (auto simp add: traced_def split: option.splits)
  let ?c = "(ls - m, ls + m, v, ab w1)"
  have t: "traced srch ab (ls - m) (ls + m) depth pv (w, tr0) = Some (v, pv1, (w1, tr0 @ [?c]))"
    using s by (simp add: traced_def)
  show ?case
  proof (cases "\<not> ab w1 \<and> \<not> (ls - m < v \<and> v < ls + m) \<and> \<not> v > me")
    case True
    then have "Widen_margins me (traced srch ab) (\<lambda>wt. ab (fst wt)) depth ls ms pv1
        (w1, tr0 @ [?c]) = Some (x, pv', (w', tr))"
      using Cons.prems t by auto
    from Cons.IH [OF this] obtain new where n: "tr = (tr0 @ [?c]) @ new"
      and f: "\<forall>c \<in> set new. \<exists>m \<in> set ms. window_of c = (ls - m, ls + m)"
      and g: "(\<forall>c \<in> set new. failed_outside me c)
                \<longrightarrow> x = Inr () \<and> map window_of new = map (\<lambda>m. (ls - m, ls + m)) ms"
      by blast
    show ?thesis
    proof (intro exI [of _ "?c # new"] conjI)
      show "tr = tr0 @ ?c # new" using n by simp
      show "\<forall>c \<in> set (?c # new). \<exists>m' \<in> set (m # ms). window_of c = (ls - m', ls + m')"
        using f by (auto simp add: window_of_def)
      show "(\<forall>c \<in> set (?c # new). failed_outside me c)
          \<longrightarrow> x = Inr () \<and> map window_of (?c # new) = map (\<lambda>m. (ls - m, ls + m)) (m # ms)"
        using g by (auto simp add: window_of_def)
    qed
  next
    case False
    then have r: "tr = tr0 @ [?c]" using Cons.prems t by (auto split: if_splits)
    have nf: "\<not> failed_outside me ?c" using False by (auto simp add: failed_outside_def)
    show ?thesis
    proof (intro exI [of _ "[?c]"] conjI)
      show "tr = tr0 @ [?c]" by (rule r)
      show "\<forall>c \<in> set [?c]. \<exists>m' \<in> set (m # ms). window_of c = (ls - m', ls + m')"
        by (simp add: window_of_def)
      show "(\<forall>c \<in> set [?c]. failed_outside me c)
          \<longrightarrow> x = Inr () \<and> map window_of [?c] = map (\<lambda>m. (ls - m, ls + m)) (m # ms)"
        using nf by simp
    qed
  qed
qed

text \<open>
  Claim C5, as the code has it. In any run of \<open>Widen\<close> with \<open>lastScore = 20\<close> at
  \<open>depth > 6\<close> (and \<open>20 < MAX_EVAL\<close>) in which every call made with a narrowed window has
  returned a score outside that window, not above \<open>MAX_EVAL\<close>, with
  \<open>Glob.abort_search\<close> not set after it, the windows passed to \<open>Search\<close> are, in this
  order, \<open>[12, 28]\<close>, \<open>[4, 36]\<close>, \<open>[-12, 52]\<close>, \<open>[-44, 84]\<close>, \<open>[-108, 148]\<close>,
  \<open>[-236, 276]\<close> and then \<open>[-INF, +INF]\<close>. The condition is on the calls of the run
  itself, as its trace records them.
\<close>

theorem Widen_windows_from_20:
  assumes "6 < depth" "20 < me"
    and "Widen me infty (traced srch ab) (\<lambda>wt. ab (fst wt)) depth pv 20 (w, [])
         = Some (v, pv', (w', tr))"
    and "\<forall>c \<in> set tr. window_of c \<noteq> (- infty, infty) \<longrightarrow> failed_outside me c"
  shows "map window_of tr = [(12, 28), (4, 36), (- 12, 52), (- 44, 84), (- 108, 148),
                             (- 236, 276), (- infty, infty)]"
proof -
  let ?ms = "[8, 16, 32, 64, 128, 256 :: int]"
  let ?S = "traced srch ab"
  let ?A = "\<lambda>wt :: 'a \<times> (int \<times> int \<times> int \<times> bool) list. ab (fst wt)"
  have d: "Widen_described me infty ?S ?A depth pv 20 (w, []) = Some (v, pv', (w', tr))"
    using assms(3) by (simp only: Widen_unfold)
  have c: "depth > 6 \<and> 20 < me" using assms(1,2) by simp
  obtain y where m0: "Widen_margins me ?S ?A depth 20 ?ms pv (w, []) = Some y"
    using d c unfolding Widen_described_def
    by (cases "Widen_margins me ?S ?A depth 20 ?ms pv (w, [])") simp_all
  obtain x pv1 w1 tr1 where y: "y = (x, pv1, (w1, tr1))"
    by (metis prod_cases3 surj_pair)
  have r: "(case x of Inl s \<Rightarrow> Some (s, pv1, (w1, tr1))
            | Inr u \<Rightarrow> ?S (- infty) infty depth pv1 (w1, tr1))
          = Some (v, pv', (w', tr))"
    using d c m0 y unfolding Widen_described_def by (cases x) simp_all
  note m = m0 [unfolded y]
  from Widen_margins_traced [OF m] obtain new where n: "tr1 = new"
    and f: "\<forall>c \<in> set new. \<exists>m \<in> set ?ms. window_of c = (20 - m, 20 + m)"
    and g: "(\<forall>c \<in> set new. failed_outside me c)
              \<longrightarrow> x = Inr () \<and> map window_of new = map (\<lambda>m. (20 - m, 20 + m)) ?ms"
    by auto
  have nw: "window_of c \<noteq> (- infty, infty)" if "c \<in> set new" for c
  proof -
    from f that obtain m where "window_of c = (20 - m, 20 + m)" by blast
    then show ?thesis by auto
  qed
  have pre: "\<exists>rest. tr = new @ rest"
  proof (cases x)
    case (Inl s)
    then show ?thesis using r n by simp
  next
    case (Inr u)
    then show ?thesis using r n by (auto simp add: traced_def split: option.splits)
  qed
  have "\<forall>c \<in> set new. failed_outside me c"
  proof
    fix c assume cn: "c \<in> set new"
    then have "c \<in> set tr" using pre by auto
    with assms(4) nw [OF cn] show "failed_outside me c" by blast
  qed
  with g have x: "x = Inr ()" and w: "map window_of new = map (\<lambda>m. (20 - m, 20 + m)) ?ms"
    by simp_all
  from r x n obtain c where t: "tr = new @ [c]" and wc: "window_of c = (- infty, infty)"
    by (auto simp add: traced_def window_of_def split: option.splits)
  show ?thesis unfolding t using w wc by simp
qed

theorem Widen_windows_from_20_witness:
  "\<exists>v pv' w' tr.
     Widen 29999 32767
       (traced (\<lambda>a b d pv w. Search (toy_env False False [100] 300 False) 10 0 a b d False
                                 (- 1) (- 1) pv w)
               (\<lambda>w. abort_search (toy_env False False [100] 300 False) (eng w)))
       (\<lambda>wt. abort_search (toy_env False False [100] 300 False) (eng (fst wt)))
       7 [0] 20 (toy_world False, [])
     = Some (v, pv', (w', tr))
   \<and> map window_of tr = [(12, 28), (4, 36), (- 12, 52), (- 44, 84), (- 108, 148),
                           (- 236, 276), (- 32767, 32767)]"
proof -
  let ?e = "toy_env False False [100] 300 False"
  let ?S = "traced (\<lambda>a b d pv w. Search ?e 10 0 a b d False (- 1) (- 1) pv w)
               (\<lambda>w. abort_search ?e (eng w))"
  let ?A = "\<lambda>wt :: (int list, bool \<times> int) world \<times> (int \<times> int \<times> int \<times> bool) list.
               abort_search ?e (eng (fst wt))"
  let ?tr = "[(12, 28, - 300, False), (4, 36, - 300, False), (- 12, 52, - 300, False),
              (- 44, 84, - 300, False), (- 108, 148, - 300, False), (- 236, 276, - 300, False),
              (- 32767, 32767, - 300, False)]"
  have "\<exists>v pv' w'. Widen 29999 32767 ?S ?A 7 [0] 20 (toy_world False, [])
      = Some (v, pv', (w', ?tr))"
    by (simp add: Widen_unfold Widen_described_def traced_def eval_nat_numeral phase_defs toy_defs)
  then obtain v pv' w' where
    run: "Widen 29999 32767 ?S ?A 7 [0] 20 (toy_world False, []) = Some (v, pv', (w', ?tr))"
    by blast
  have f: "\<forall>c \<in> set ?tr. window_of c \<noteq> (- 32767, 32767) \<longrightarrow> failed_outside 29999 c"
    by (simp add: failed_outside_def window_of_def)
  have a: "(6::int) < 7" "(20::int) < 29999" by simp_all
  note m = Widen_windows_from_20 [OF a run f]
  show ?thesis
    by (rule exI [of _ v], rule exI [of _ pv'], rule exI [of _ w'], rule exI [of _ ?tr])
      (rule conjI [OF run m])
qed

theorem Widen_windows_counterexample:
  "Widen 29999 32767 (logged (\<lambda>a b d pv w. Some (b, pv, w))) (\<lambda>wl. False) 10 [] 20 ((), [])
     = Some (32767, [], ((), [(12, 28), (4, 36), (- 12, 52), (- 44, 84), (- 108, 148),
                              (- 236, 276), (- 32767, 32767)]))
   \<and> (- 220, 260) \<notin> set [(12, 28), (4, 36), (- 12, 52), (- 44, 84), (- 108, 148),
                           (- 236, 276), (- 32767, 32767 :: int)]"
  by (simp add: Widen_unfold Widen_described_def logged_def)

subsection \<open>Make/unmake parity\<close>

lemma pos_Store_ev [simp]: "pos (Store_ev env key mv sc bd d pl w) = pos w"
  by (simp add: Store_ev_def)

lemma pos_UpdateHistory_ev [simp]: "pos (UpdateHistory_ev env lm mv d pl w) = pos w"
  by (simp add: UpdateHistory_ev_def)

lemma pos_DecreaseHistory_ev [simp]: "pos (DecreaseHistory_ev env mv d w) = pos w"
  by (simp add: DecreaseHistory_ev_def)

lemma pos_fold_DecreaseHistory_ev [simp]:
  "pos (fold (\<lambda>mv w'. DecreaseHistory_ev env mv d w') mvs w) = pos w"
  by (induction mvs arbitrary: w) simp_all

lemma pos_history_block [simp]: "pos (history_block env lm mv d pl mvs w) = pos w"
  by (simp add: history_block_def)

lemma pos_Evaluate_w [simp]: "pos (snd (Evaluate_w env w)) = pos w"
  by (simp add: Evaluate_w_def split: prod.split)

lemma pos_Retrieve_w [simp]: "pos (snd (snd (snd (Retrieve_w env mv a b d pl w)))) = pos w"
  by (simp add: Retrieve_w_def split: prod.split)

lemma pos_QuiesceChecks_w:
  "undo_restores env \<Longrightarrow> pos (snd (snd (QuiesceChecks_w env pl a b pv w))) = pos w"
  unfolding undo_restores_def QuiesceChecks_w_def
  by (auto split: prod.split) (metis fst_conv snd_conv)

lemma pvs_pos:
  assumes "keeps_pos rec" "pvs env rec ply alpha beta best nd mv lc npv w = Some (s, npv', w')"
  shows "pos w' = pos w"
  using assms unfolding keeps_pos_def pvs_def
  by (auto split: if_splits option.splits prod.splits)

lemma research_pos:
  assumes "keeps_pos rec"
    "research env rec ply alpha beta best nd red mv lc npv w = Some (s, npv', w')"
  shows "pos w' = pos w"
  using assms(2) unfolding research_def
  by (fastforce split: if_splits option.splits prod.splits dest: pvs_pos [OF assms(1)])

lemma sherwin_pos:
  "undo_restores env \<Longrightarrow> pos (snd (snd (sherwin env nd ls))) = pos (l_w ls)"
  using pos_QuiesceChecks_w [of env "n_ply nd" "- n_beta nd" "- n_beta nd + 1" "l_pv ls" "l_w ls"]
  by (auto simp add: sherwin_def split: prod.splits)

lemma played_pos [simp]: "pos (l_w (played env nd mv mvt ls)) = pos (l_w ls)"
  by (simp add: played_def)

lemma move_done_pos:
  "pos (step_world (move_done env nd mv u ls score npv w)) = UndoMove env mv u (pos w)"
  by (simp add: move_done_def step_world_def Let_def)


lemma undo_move_restores:
  "undo_restores env \<Longrightarrow> UndoMove env mv (snd (DoMove env mv p)) (fst (DoMove env mv p)) = p"
  by (simp add: undo_restores_def)

lemma undo_null_restores:
  "undo_restores env \<Longrightarrow> UndoNull env (snd (DoNull env p)) (fst (DoNull env p)) = p"
  by (simp add: undo_restores_def)

lemma loop_body_pos:
  assumes u: "undo_restores env" and k: "keeps_pos rec"
    and b: "loop_body env rec nd mv mvt ls = Some x"
  shows "pos (step_world x) = pos (l_w ls)"
proof -
  let ?w = "l_w ls"
  let ?du = "DoMove env mv (pos ?w)"
  let ?ls1 = "ls\<lparr>l_fl_futility := futility_flag env nd mvt ls\<rparr>"
  let ?ls2 = "played env nd mv mvt (?ls1\<lparr>l_w := ?w\<lparr>pos := fst ?du\<rparr>\<rparr>)"
  note r = undo_move_restores [OF u, of mv "pos ?w"]
  have p2: "pos (l_w ?ls2) = fst ?du" by simp
  show ?thesis
  proof (cases "Illegal env (fst ?du)")
    case True
    then have "x = Inr (?ls1\<lparr>l_w := ?w\<lparr>pos := UndoMove env mv (snd ?du) (fst ?du)\<rparr>\<rparr>)"
      using b by (simp add: loop_body_def Let_def)
    then show ?thesis using r by (simp add: step_world_def)
  next
    case legal: False
    let ?hist = "mHistory env (eng ?w) (mPc env (pos ?w) (Fsq env mv)) (Tsq env mv)"
    show ?thesis
    proof (cases "futility_prune env nd mvt ?hist ?ls2 \<or> late_move_prune env nd mvt ?hist ?ls2")
      case True
      then have "x = Inr (?ls2\<lparr>l_w := (l_w ?ls2)\<lparr>pos := UndoMove env mv (snd ?du) (pos (l_w ?ls2))\<rparr>\<rparr>)"
        using b legal by (auto simp add: loop_body_def Let_def split: if_splits)
      then show ?thesis using r by (simp add: step_world_def)
    next
      case False
      let ?q = "sherwin env nd ?ls2"
      let ?ls3 = "?ls2\<lparr>l_pv := fst (snd ?q), l_w := snd (snd ?q)\<rparr>"
      have p3: "pos (l_w ?ls3) = fst ?du"
        using sherwin_pos [OF u, of nd ?ls2] by simp
      from b legal False obtain score npv w4 a1 a2 a3 a4 a5 a6 a7 a8 where
        rs: "research env rec a1 a2 a3 a4 a5 a6 a7 a8 (l_new_pv ?ls3) (l_w ?ls3) = Some (score, npv, w4)"
        and x: "x = move_done env nd mv (snd ?du) ?ls3 score npv w4"
        by (auto simp add: loop_body_def Let_def split: option.splits)
      from research_pos [OF k rs] p3 have "pos w4 = fst ?du" by simp
      then show ?thesis using r by (simp add: x move_done_pos)
    qed
  qed
qed

lemma main_loop_pos:
  assumes "undo_restores env" "keeps_pos rec"
  shows "main_loop env rec k nd ls = Some x \<Longrightarrow> pos (step_world x) = pos (l_w ls)"
proof (induction k arbitrary: ls)
  case 0
  then show ?case by simp
next
  case (Suc k)
  let ?nm = "NextMove env (l_m ls) (pos (l_w ls)) (eng (l_w ls))"
  show ?case
  proof (cases "fst ?nm = 0")
    case True
    then show ?thesis using Suc.prems by (auto simp add: Let_def step_world_def)
  next
    case False
    let ?ls0 = "ls\<lparr>l_m := snd (snd ?nm)\<rparr>"
    from Suc.prems False obtain y where
      y: "loop_body env rec nd (fst ?nm) (fst (snd ?nm)) ?ls0 = Some y"
      by (auto simp add: Let_def split: option.splits)
    from loop_body_pos [OF assms y] have py: "pos (step_world y) = pos (l_w ls)" by simp
    show ?thesis
    proof (cases y)
      case (Inl r)
      then show ?thesis using Suc.prems False y py by (simp add: Let_def)
    next
      case (Inr ls')
      then have "main_loop env rec k nd ls' = Some x"
        using Suc.prems False y by (simp add: Let_def)
      from Suc.IH [OF this] py Inr show ?thesis by (simp add: step_world_def)
    qed
  qed
qed


lemma l_w_Search_init [simp]:
  "l_w (snd (Search_init env ply is_pv alpha beta depth lm lc chk pr ev dn mv rs npv pv w)) = w"
  by (simp add: Search_init_def)

lemma Search_iid_pos:
  assumes "keeps_pos rec"
    and "Search_iid env rec ply is_pv alpha beta depth lm lc chk pr ev dn mv rs npv pv w = Some x"
  shows "pos (entered_world x) = pos w"
  using assms unfolding Search_iid_def keeps_pos_def
  by (auto simp add: entered_world_def split: if_splits option.splits)

lemma Search_razor_pos:
  assumes u: "undo_restores env" and k: "keeps_pos rec"
    and b: "Search_razor env rec ply is_pv alpha beta depth wn lm lc chk pr ev dn mv rs npv pv w
            = Some x"
  shows "pos (entered_world x) = pos w"
proof -
  note q = pos_QuiesceChecks_w [OF u, of ply alpha beta pv w]
  show ?thesis
    using b q unfolding Search_razor_def Let_def
    by (auto simp add: entered_world_def split: if_splits prod.splits
          dest!: Search_iid_pos [OF k])
qed

lemma null_done_pos:
  assumes u: "undo_restores env" and k: "keeps_pos rec"
    and b: "null_done env rec ply is_pv alpha beta depth wn lm lc chk pr ev ndp mv ud sc rs npv pv w
            = Some x"
  shows "pos (entered_world x) = UndoNull env ud (pos w)"
proof -
  let ?w1 = "w\<lparr>pos := UndoNull env ud (pos w)\<rparr>"
  have kk: "\<And>pl a b d wn lm lc pv v pv' w'.
      rec pl a b d wn lm lc pv ?w1 = Some (v, pv', w') \<Longrightarrow> pos w' = UndoNull env ud (pos w)"
    using k unfolding keeps_pos_def by fastforce
  show ?thesis
    using b unfolding null_done_def Let_def
    by (auto simp add: entered_world_def split: if_splits option.splits
          dest!: Search_razor_pos [OF u k] kk)
qed


lemma Search_null_pos:
  assumes u: "undo_restores env" and k: "keeps_pos rec"
    and b: "Search_null env rec ply is_pv alpha beta depth wn lm lc chk pr ev mv pv w = Some x"
  shows "pos (entered_world x) = pos w"
proof (cases "depth > 1 \<and> \<not> wn \<and> pr \<and> MayNull env (pos w) \<and> ev \<ge> beta")
  case False
  then have "Search_razor env rec ply is_pv alpha beta depth wn lm lc chk pr ev False mv (- 1)
      (uninit_pv env) pv w = Some x"
    using b by (auto simp add: Search_null_def split: if_splits)
  from Search_razor_pos [OF u k this] show ?thesis .
next
  case True
  let ?nd = "depth - ((823 + 67 * depth) div 256) - Min_int 3 ((ev - beta) div 200)"
  let ?rt = "Retrieve_w env mv alpha beta ?nd ply w"
  let ?w1 = "snd (snd (snd ?rt))"
  have p1: "pos ?w1 = pos w" by simp
  show ?thesis
  proof (cases "fst ?rt \<and> fst (snd (snd ?rt)) < beta")
    case avoid: True
    then have "Search_razor env rec ply is_pv alpha beta depth wn lm lc chk pr ev True
        (fst (snd ?rt)) (- 1) (uninit_pv env) pv ?w1 = Some x"
      using b True by (auto simp add: Search_null_def Let_def split: if_splits)
    from Search_razor_pos [OF u k this] p1 show ?thesis by simp
  next
    case False
    let ?dn = "DoNull env (pos ?w1)"
    let ?w2 = "?w1\<lparr>pos := fst ?dn\<rparr>"
    let ?child = "if ?nd \<le> 0
        then Some (QuiesceChecks_w env (ply + 1) (- beta) (- beta + 1) (uninit_pv env) ?w2)
        else rec (ply + 1) (- beta) (- beta + 1) ?nd True 0 (- 1) (uninit_pv env) ?w2"
    from b True False obtain v npv w3 where c: "?child = Some (v, npv, w3)"
      and x: "null_done env rec ply is_pv alpha beta depth wn lm lc chk pr ev ?nd (fst (snd ?rt))
          (snd ?dn) (- v)
          (if fst (snd (Retrieve_w env (- 1) alpha beta depth ply w3)) > 0
           then Tsq env (fst (snd (Retrieve_w env (- 1) alpha beta depth ply w3))) else - 1)
          npv pv (snd (snd (snd (Retrieve_w env (- 1) alpha beta depth ply w3)))) = Some x"
      by (auto simp add: Search_null_def Let_def split: option.splits if_splits)
    have "pos w3 = fst ?dn"
    proof (cases "?nd \<le> 0")
      case True
      then show ?thesis
        using c pos_QuiesceChecks_w [OF u, of "ply + 1" "- beta" "- beta + 1" "uninit_pv env" ?w2]
        by auto
    next
      case False
      then show ?thesis using c k unfolding keeps_pos_def by fastforce
    qed
    with null_done_pos [OF u k x] undo_null_restores [OF u, of "pos ?w1"] p1
    show ?thesis by simp
  qed
qed

lemma Search_prune_pos:
  assumes u: "undo_restores env" and k: "keeps_pos rec"
    and b: "Search_prune env rec ply is_pv alpha beta depth wn lm lc mv pv w = Some x"
  shows "pos (entered_world x) = pos w"
  using b unfolding Search_prune_def Let_def
  by (auto simp add: entered_world_def split: if_splits dest!: Search_null_pos [OF u k])

lemma Search_probe_pos:
  assumes u: "undo_restores env" and k: "keeps_pos rec"
    and b: "Search_probe env rec ply is_pv alpha beta depth wn lm lc pv w = Some x"
  shows "pos (entered_world x) = pos w"
  using b unfolding Search_probe_def Let_def
  by (auto simp add: entered_world_def case_prod_beta split: if_splits
        dest!: Search_prune_pos [OF u k])

lemma Search_enter_pos:
  assumes u: "undo_restores env" and k: "keeps_pos rec"
    and b: "Search_enter env rec ply alpha beta depth wn lm lc pv w = Some x"
  shows "pos (entered_world x) = pos w"
  using b pos_QuiesceChecks_w [OF u, of ply alpha beta pv w] unfolding Search_enter_def Let_def
  by (auto simp add: entered_world_def split: if_splits sum.splits
        dest!: Search_probe_pos [OF u k])


lemma Search_body_keeps_pos:
  assumes u: "undo_restores env" and k: "keeps_pos rec"
  shows "keeps_pos (Search_body env rec n)"
  unfolding keeps_pos_def
proof (intro allI impI)
  fix ply alpha beta depth wn lm lc pv w v pv' w'
  assume b: "Search_body env rec n ply alpha beta depth wn lm lc pv w = Some (v, pv', w')"
  then obtain x where e: "Search_enter env rec ply alpha beta depth wn lm lc pv w = Some x"
    by (auto simp add: Search_body_def split: option.splits)
  note pe = Search_enter_pos [OF u k e]
  show "pos w' = pos w"
  proof (cases x)
    case (Inl r)
    then show ?thesis using b e pe by (simp add: Search_body_def entered_world_def)
  next
    case (Inr nl)
    obtain nd ls where nl: "nl = (nd, ls)" by (cases nl)
    from b e Inr nl obtain y where m: "main_loop env rec n nd ls = Some y"
      by (auto simp add: Search_body_def split: option.splits)
    note pm = main_loop_pos [OF u k m]
    have pl: "pos (l_w ls) = pos w" using pe Inr nl by (simp add: entered_world_def)
    show ?thesis
    proof (cases y)
      case (Inl r)
      then show ?thesis using b e m \<open>x = Inr nl\<close> nl pm pl
        by (simp add: Search_body_def step_world_def)
    next
      case (Inr ls')
      then have "Search_finish env nd ls' = (v, pv', w')"
        using b e m \<open>x = Inr nl\<close> nl by (simp add: Search_body_def)
      then have "pos w' = pos (l_w ls')"
        by (auto simp add: Search_finish_def Let_def split: if_splits)
      then show ?thesis using pm pl Inr by (simp add: step_world_def)
    qed
  qed
qed

lemma Search_keeps_pos: "undo_restores env \<Longrightarrow> keeps_pos (Search env n)"
proof (induction n)
  case 0
  show ?case by (simp add: keeps_pos_def)
next
  case (Suc n)
  from Search_body_keeps_pos [OF Suc.prems Suc.IH [OF Suc.prems], of n]
  show ?case by (simp add: keeps_pos_def)
qed

lemma toy_undo_restores: "undo_restores (toy_env draw chk moves q stop)"
  by (simp add: undo_restores_def toy_env_def)

text \<open>
  Claim C1. Every invocation of \<open>Search\<close> that runs to completion returns with the
  position it was called with, whatever the exit taken (illegal-move skip, futility
  and late-move pruning, re-search, beta cutoff, abort, end of the loop, and the exits
  before the loop), given that \<open>UndoMove\<close> and \<open>UndoNull\<close> revert \<open>DoMove\<close> and \<open>DoNull\<close>
  and that the quiescence search restores the position: every \<open>DoMove\<close> and \<open>DoNull\<close> of
  a frame is followed by its undo before the frame is left.
\<close>

theorem Search_restores_position:
  assumes "undo_restores env"
    and "Search env n ply alpha beta depth was_null last_move last_capt_sq pv w = Some (v, pv', w')"
  shows "pos w' = pos w"
  using Search_keeps_pos [OF assms(1), of n] assms(2) unfolding keeps_pos_def by blast

theorem Search_restores_position_witness:
  "undo_restores (toy_env False False [13, 100, 200] 0 False)
   \<and> (\<exists>v pv' w'. Search (toy_env False False [13, 100, 200] 0 False) 7 0 (- 50) 50 2 False
          (- 1) (- 1) [0] (toy_world False) = Some (v, pv', w')
        \<and> pos w' = pos (toy_world False))"
proof -
  let ?e = "toy_env False False [13, 100, 200] 0 False"
  have run: "Search ?e 7 0 (- 50) 50 2 False (- 1) (- 1) [0] (toy_world False)
      = Some (0, [100, 100, 0],
          \<lparr>pos = [], eng = (False, 5),
           log = [History_Update 100 100 1 1, History_Decrease 100 1, History_Decrease 200 1,
                  TT_Store 1 100 0 EXACT 1 1, History_Update 200 100 1 1,
                  History_Decrease 100 1, TT_Store 1 100 0 LOWER 1 1,
                  History_Update (- 1) 100 2 0, History_Decrease 100 2,
                  History_Decrease 200 2, TT_Store 0 100 0 EXACT 2 0]\<rparr>)"
    by (simp add: eval_nat_numeral phase_defs toy_defs)
  from Search_restores_position [OF toy_undo_restores run] run toy_undo_restores
  show ?thesis by blast
qed

subsection \<open>From node entry to the main loop\<close>

lemma Search_init_start:
  "frame_start env ply is_pv alpha beta depth lm chk pr dn
     (fst (Search_init env ply is_pv alpha beta depth lm lc chk pr ev dn mv rs npv pv w))
     (snd (Search_init env ply is_pv alpha beta depth lm lc chk pr ev dn mv rs npv pv w))"
  by (simp add: Search_init_def frame_start_def)

lemma Search_iid_start:
  assumes "Search_iid env rec ply is_pv alpha beta depth lm lc chk pr ev dn mv rs npv pv w
           = Some (Inr (nd, ls))"
  shows "frame_start env ply is_pv alpha beta depth lm chk pr dn nd ls"
  using assms Search_init_start [of env ply is_pv alpha beta depth lm chk pr dn lc ev]
  unfolding Search_iid_def
  by (auto split: if_splits option.splits) (metis fst_conv snd_conv)+

lemma Search_razor_start:
  assumes "Search_razor env rec ply is_pv alpha beta depth wn lm lc chk pr ev dn mv rs npv pv w
           = Some (Inr (nd, ls))"
  shows "frame_start env ply is_pv alpha beta depth lm chk pr dn nd ls"
  using assms unfolding Search_razor_def Let_def
  by (auto split: if_splits prod.splits dest!: Search_iid_start)

lemma null_done_start:
  assumes "null_done env rec ply is_pv alpha beta depth wn lm lc chk pr ev ndp mv ud sc rs npv pv w
           = Some (Inr (nd, ls))"
  shows "frame_start env ply is_pv alpha beta depth lm chk pr True nd ls"
  using assms unfolding null_done_def Let_def
  by (auto split: if_splits option.splits dest!: Search_razor_start)

lemma Search_null_start:
  assumes "Search_null env rec ply is_pv alpha beta depth wn lm lc chk pr ev mv pv w
           = Some (Inr (nd, ls))"
  shows "\<exists>dn. frame_start env ply is_pv alpha beta depth lm chk pr dn nd ls \<and> (dn \<longrightarrow> pr)"
  using assms unfolding Search_null_def Let_def
  by (auto split: if_splits option.splits prod.splits dest!: Search_razor_start null_done_start)

lemma Search_prune_start:
  assumes "Search_prune env rec ply is_pv alpha beta depth wn lm lc mv pv w = Some (Inr (nd, ls))"
  shows "\<exists>chk pr dn. frame_start env ply is_pv alpha beta depth lm chk pr dn nd ls
           \<and> (dn \<longrightarrow> pr) \<and> (pr \<longrightarrow> \<not> is_pv)"
  using assms unfolding Search_prune_def Let_def
  by (auto split: if_splits dest!: Search_null_start)

lemma Search_probe_start:
  assumes "Search_probe env rec ply is_pv alpha beta depth wn lm lc pv w = Some (Inr (nd, ls))"
  shows "\<exists>chk pr dn. frame_start env ply is_pv alpha beta depth lm chk pr dn nd ls
           \<and> (dn \<longrightarrow> pr) \<and> (pr \<longrightarrow> \<not> is_pv)"
  using assms unfolding Search_probe_def Let_def
  by (auto simp add: case_prod_beta split: if_splits dest!: Search_prune_start)

lemma mate_distance_window:
  "mate_distance env ply alpha beta = Inr ab \<Longrightarrow> alpha \<le> fst ab \<and> snd ab \<le> beta"
  by (auto simp add: mate_distance_def Let_def split: if_splits)

lemma Search_enter_start:
  assumes "Search_enter env rec ply alpha beta depth wn lm lc pv w = Some (Inr (nd, ls))"
  shows "n_ply nd = ply \<and> n_depth nd = depth \<and> 0 < depth \<and> n_is_pv nd = (alpha \<noteq> beta - 1)
       \<and> n_beta nd \<le> beta \<and> alpha \<le> l_alpha ls \<and> l_best ls = - INFc env
       \<and> n_last_move nd = lm \<and> (n_did_null nd \<longrightarrow> \<not> n_is_pv nd)
       \<and> l_mv_played ls = [] \<and> l_mv_tried ls = 0"
proof -
  from assms obtain ab where md: "mate_distance env ply alpha beta = Inr ab"
    and p: "Search_probe env rec ply (alpha \<noteq> beta - 1) (fst ab) (snd ab) depth wn lm lc
              (if ply \<noteq> 0 then pv_clear pv else pv) (w\<lparr>eng := Slowdown env (eng w)\<rparr>)
            = Some (Inr (nd, ls))"
    and d: "0 < depth"
    unfolding Search_enter_def Let_def
    by (auto split: if_splits sum.splits)
  from Search_probe_start [OF p] mate_distance_window [OF md] d
  show ?thesis unfolding frame_start_def by auto
qed


lemma Search_loop_done:
  assumes "Search_enter env (Search env n) ply alpha beta depth wn lm lc pv w = Some (Inr (nd, ls))"
    and "main_loop env (Search env n) n nd ls = Some (Inr ls')"
  shows "Search env (Suc n) ply alpha beta depth wn lm lc pv w = Some (Search_finish env nd ls')"
  using assms by (simp add: Search_body_def)


subsection \<open>No legal move\<close>



subsection \<open>The main loop: window, best score and PV buffer\<close>

lemma played_fields [simp]:
  "l_alpha (played env nd mv mvt ls) = l_alpha ls"
  "l_best (played env nd mv mvt ls) = l_best ls"
  "l_pv (played env nd mv mvt ls) = l_pv ls"
  by (simp_all add: played_def)

lemma sherwin_no_null:
  "\<not> n_did_null nd \<Longrightarrow> sherwin env nd ls = (False, l_pv ls, l_w ls)"
  by (simp add: sherwin_def)

lemma move_done_inv:
  assumes "move_done env nd mv u ls score npv w = Inr ls'" "loop_inv env nd a0 ls"
  shows "loop_inv env nd a0 ls' \<and> l_alpha ls \<le> l_alpha ls'
       \<and> (l_alpha ls' = l_alpha ls \<longrightarrow> l_pv ls' = l_pv ls)"
  using assms unfolding move_done_def loop_inv_def Let_def
  by (auto split: if_splits)

lemma loop_body_inv:
  assumes b: "loop_body env rec nd mv mvt ls = Some (Inr ls')" and i: "loop_inv env nd a0 ls"
  shows "loop_inv env nd a0 ls' \<and> l_alpha ls \<le> l_alpha ls'
       \<and> (\<not> n_did_null nd \<and> l_alpha ls' = l_alpha ls \<longrightarrow> l_pv ls' = l_pv ls)"
proof -
  let ?w = "l_w ls"
  let ?du = "DoMove env mv (pos ?w)"
  let ?ls1 = "ls\<lparr>l_fl_futility := futility_flag env nd mvt ls\<rparr>"
  let ?ls2 = "played env nd mv mvt (?ls1\<lparr>l_w := ?w\<lparr>pos := fst ?du\<rparr>\<rparr>)"
  let ?hist = "mHistory env (eng ?w) (mPc env (pos ?w) (Fsq env mv)) (Tsq env mv)"
  show ?thesis
  proof (cases "Illegal env (fst ?du)")
    case True
    then have "ls' = ?ls1\<lparr>l_w := ?w\<lparr>pos := UndoMove env mv (snd ?du) (fst ?du)\<rparr>\<rparr>"
      using b by (simp add: loop_body_def Let_def)
    then show ?thesis using i by (simp add: loop_inv_def)
  next
    case legal: False
    show ?thesis
    proof (cases "futility_prune env nd mvt ?hist ?ls2 \<or> late_move_prune env nd mvt ?hist ?ls2")
      case True
      then have "ls' = ?ls2\<lparr>l_w := (l_w ?ls2)\<lparr>pos := UndoMove env mv (snd ?du) (pos (l_w ?ls2))\<rparr>\<rparr>"
        using b legal by (auto simp add: loop_body_def Let_def split: if_splits)
      then show ?thesis using i by (simp add: loop_inv_def)
    next
      case False
      let ?q = "sherwin env nd ?ls2"
      let ?ls3 = "?ls2\<lparr>l_pv := fst (snd ?q), l_w := snd (snd ?q)\<rparr>"
      from b legal False obtain score npv w4 where
        x: "move_done env nd mv (snd ?du) ?ls3 score npv w4 = Inr ls'"
        by (auto simp add: loop_body_def Let_def split: option.splits)
      have i3: "loop_inv env nd a0 ?ls3" using i by (simp add: loop_inv_def)
      have pv3: "\<not> n_did_null nd \<Longrightarrow> l_pv ?ls3 = l_pv ls"
        by (simp add: sherwin_no_null)
      from move_done_inv [OF x i3] pv3 show ?thesis by auto
    qed
  qed
qed

lemma main_loop_inv:
  "main_loop env rec k nd ls = Some (Inr ls') \<Longrightarrow> loop_inv env nd a0 ls \<Longrightarrow>
     loop_inv env nd a0 ls' \<and> l_alpha ls \<le> l_alpha ls'
     \<and> (\<not> n_did_null nd \<and> l_alpha ls' = l_alpha ls \<longrightarrow> l_pv ls' = l_pv ls)"
proof (induction k arbitrary: ls)
  case 0
  then show ?case by simp
next
  case (Suc k)
  let ?nm = "NextMove env (l_m ls) (pos (l_w ls)) (eng (l_w ls))"
  show ?case
  proof (cases "fst ?nm = 0")
    case True
    then show ?thesis using Suc.prems by (auto simp add: Let_def)
  next
    case False
    let ?ls0 = "ls\<lparr>l_m := snd (snd ?nm)\<rparr>"
    from Suc.prems(1) False obtain ls1 where
      y: "loop_body env rec nd (fst ?nm) (fst (snd ?nm)) ?ls0 = Some (Inr ls1)"
      and r: "main_loop env rec k nd ls1 = Some (Inr ls')"
      by (auto simp add: Let_def split: option.splits sum.splits)
    have "loop_inv env nd a0 ?ls0" using Suc.prems(2) by (simp add: loop_inv_def)
    from loop_body_inv [OF y this]
    have 1: "loop_inv env nd a0 ls1" and 2: "l_alpha ls \<le> l_alpha ls1"
      and 3: "\<not> n_did_null nd \<and> l_alpha ls1 = l_alpha ls \<longrightarrow> l_pv ls1 = l_pv ls"
      by simp_all
    from Suc.IH [OF r 1] 2 3 show ?thesis by auto
  qed
qed

lemma loop_inv_start: "l_best ls = - INFc env \<Longrightarrow> loop_inv env nd (l_alpha ls) ls"
  by (simp add: loop_inv_def)


lemma log_fold_DecreaseHistory_ev:
  "log (fold (\<lambda>mv w'. DecreaseHistory_ev env mv d w') mvs w)
     = log w @ map (\<lambda>mv. History_Decrease mv d) mvs"
  by (induction mvs arbitrary: w) (simp_all add: DecreaseHistory_ev_def)

lemma log_history_block:
  "log (history_block env lm mv d pl mvs w)
     = log w @ History_Update lm mv d pl # map (\<lambda>mv. History_Decrease mv d) mvs"
  by (simp add: history_block_def log_fold_DecreaseHistory_ev UpdateHistory_ev_def)

subsection \<open>The bound kind EXACT\<close>

text \<open>
  Claim C2: every store with bound kind \<open>EXACT\<close> has \<open>alpha < score < beta\<close>. The code
  does not keep it. The frame chooses between \<open>EXACT\<close> and \<open>UPPER\<close> by the head of the PV
  buffer, which stands for "some move has raised \<open>alpha\<close>" only when the head was zero
  when the loop started. At the root the buffer is not cleared: with \<open>[5, 0]\<close> left in
  it and the only move failing low in the window \<open>(10, 20)\<close>, the frame stores the score
  \<open>0\<close>, which is not above \<open>alpha = 10\<close>, with bound kind \<open>EXACT\<close> and the stale move
  \<open>5\<close>, and credits the history of move \<open>5\<close>. The same call one ply deeper, where the
  head has been cleared, stores the same score with \<open>UPPER\<close> and no move. After internal
  iterative deepening has written the buffer the same happens at \<open>ply = 1\<close>: the last
  store is \<open>EXACT\<close> with score \<open>0\<close> in the window \<open>(10, 20)\<close>.
\<close>

theorem Search_exact_store_stale_head:
  "Search (toy_env False False [100] 0 False) 3 0 10 20 1 False (- 1) (- 1) [5, 0]
       (toy_world False)
     = Some (0, [5, 0],
         \<lparr>pos = [], eng = (False, 5),
          log = [History_Update (- 1) 5 1 0, History_Decrease 100 1,
                 TT_Store 0 5 0 EXACT 1 0]\<rparr>)
   \<and> \<not> (10 < (0::int))
   \<and> Search (toy_env False False [100] 0 False) 3 1 10 20 1 False (- 1) (- 1) [5, 0]
       (toy_world False)
     = Some (0, [0, 0], \<lparr>pos = [], eng = (False, 5), log = [TT_Store 0 0 0 UPPER 1 1]\<rparr>)
   \<and> Search (toy_env_ply (\<lambda>ply. if ply = 6 then - 15 else 0) 0) 10 1 10 20 7 False (- 1) (- 1)
       [5, 0] (toy_world False)
     = Some (0, [100, 100, 100, 100, 100, 0],
         \<lparr>pos = [], eng = (False, 5),
          log = [History_Update 100 100 1 5, History_Decrease 100 1, TT_Store 4 100 15 EXACT 1 5,
                 History_Update 100 100 2 4, History_Decrease 100 2,
                 TT_Store 3 100 (- 15) EXACT 2 4, History_Update 100 100 3 3,
                 History_Decrease 100 3, TT_Store 2 100 15 EXACT 3 3, History_Update 100 100 4 2,
                 History_Decrease 100 4, TT_Store 1 100 (- 15) EXACT 4 2,
                 History_Update (- 1) 100 5 1, History_Decrease 100 5,
                 TT_Store 0 100 15 EXACT 5 1, TT_Store 6 0 0 UPPER 1 7,
                 History_Update 100 100 2 6, History_Decrease 100 2, TT_Store 5 100 0 LOWER 2 6,
                 TT_Store 4 0 0 UPPER 3 5, History_Update 100 100 4 4, History_Decrease 100 4,
                 TT_Store 3 100 0 LOWER 4 4, TT_Store 2 0 0 UPPER 5 3,
                 History_Update 100 100 6 2, History_Decrease 100 6, TT_Store 1 100 0 LOWER 6 2,
                 History_Update (- 1) 100 7 1, History_Decrease 100 7, TT_Store 0 100 0 EXACT 7 1]\<rparr>)"
  by (simp add: eval_nat_numeral phase_defs toy_defs toy_env_ply_def)

subsection \<open>The PV buffer at the root\<close>

lemma l_pv_Search_init [simp]:
  "l_pv (snd (Search_init env ply is_pv alpha beta depth lm lc chk pr ev dn mv rs npv pv w)) = pv"
  by (simp add: Search_init_def)

lemma Search_iid_pv:
  assumes "Search_iid env rec ply is_pv alpha beta depth lm lc chk pr ev dn mv rs npv pv w
           = Some (Inr (nd, ls))"
  shows "l_pv ls = pv
       \<or> (6 < depth \<and> (\<exists>v w1. rec ply alpha beta (depth - 2) False (- 1) lc pv w
                                  = Some (v, l_pv ls, w1)))"
proof (cases "is_pv \<and> \<not> chk \<and> mv = 0 \<and> depth > 6")
  case False
  then have "(nd, ls) = Search_init env ply is_pv alpha beta depth lm lc chk pr ev dn mv rs npv pv w"
    using assms by (auto simp add: Search_iid_def split: if_splits)
  then have "ls = snd (Search_init env ply is_pv alpha beta depth lm lc chk pr ev dn mv rs npv pv w)"
    by (metis snd_conv)
  then show ?thesis by simp
next
  case True
  then obtain v pv1 w1 where r: "rec ply alpha beta (depth - 2) False (- 1) lc pv w = Some (v, pv1, w1)"
    and x: "(nd, ls) = Search_init env ply is_pv alpha beta depth lm lc chk pr ev dn
               (RetrieveMove env (mHashKey env (pos w1)) mv (eng w1)) rs npv pv1 w1"
    using assms by (auto simp add: Search_iid_def split: option.splits)
  from x have "ls = snd (Search_init env ply is_pv alpha beta depth lm lc chk pr ev dn
               (RetrieveMove env (mHashKey env (pos w1)) mv (eng w1)) rs npv pv1 w1)"
    by (metis snd_conv)
  then have "l_pv ls = pv1" by simp
  then show ?thesis using r True by auto
qed

lemma Search_prune_pv_node:
  "Search_prune env rec ply True alpha beta depth wn lm lc mv pv w
     = Search_iid env rec ply True alpha beta depth lm lc (InCheck env (pos w)) False 0 False mv
         (- 1) (uninit_pv env) pv w"
  by (simp add: Search_prune_def Search_null_def Search_razor_def Let_def)

lemma Search_probe_pv_node:
  assumes "Search_probe env rec ply True alpha beta depth wn lm lc pv w = Some (Inr (nd, ls))"
  shows "\<exists>chk mv w0. Search_iid env rec ply True alpha beta depth lm lc chk False 0 False mv
           (- 1) (uninit_pv env) pv w0 = Some (Inr (nd, ls))"
  using assms unfolding Search_probe_def Let_def
  by (auto simp add: case_prod_beta Search_prune_pv_node split: if_splits)

lemma Search_enter_root_pv:
  assumes "Search_enter env rec 0 alpha beta depth wn lm lc pv w = Some (Inr (nd, ls))"
    and "alpha \<noteq> beta - 1"
  shows "l_pv ls = pv
       \<or> (6 < depth \<and> (\<exists>w0 v w1. rec 0 alpha beta (depth - 2) False (- 1) lc pv w0
                                     = Some (v, l_pv ls, w1)))"
proof -
  from assms have "Search_probe env rec 0 True alpha beta depth wn lm lc pv
      (w\<lparr>eng := Slowdown env (eng w)\<rparr>) = Some (Inr (nd, ls))"
    by (auto simp add: Search_enter_def Let_def mate_distance_def split: if_splits)
  from Search_probe_pv_node [OF this] obtain chk mv w0 where
    "Search_iid env rec 0 True alpha beta depth lm lc chk False 0 False mv
       (- 1) (uninit_pv env) pv w0 = Some (Inr (nd, ls))"
    by blast
  from Search_iid_pv [OF this] show ?thesis by blast
qed

text \<open>
  Claim C9, as the code has it. A frame that gets past the abort check clears the head
  of the PV buffer it was given exactly when \<open>ply > 0\<close>. At the root, in a call with
  \<open>alpha \<noteq> beta - 1\<close> (a PV node), when the main loop ends and no move has raised
  \<open>alpha\<close>, the buffer at exit is the buffer with which the loop started; and that is
  the buffer passed in, unless internal iterative deepening has run (\<open>depth > 6\<close>), in
  which case it is the buffer as the nested root search on it has left it.
\<close>

theorem Search_pv_buffer_at_root:
  "(0 < depth \<and> \<not> aborted env (w\<lparr>eng := Slowdown env (eng w)\<rparr>)
      \<and> \<not> (IsDraw env (pos w) \<and> ply \<noteq> 0) \<longrightarrow>
      Search_enter env rec ply alpha beta depth was_null last_move last_capt_sq pv w =
        (case mate_distance env ply alpha beta of
           Inl v \<Rightarrow> Some (Inl (v, (if ply \<noteq> 0 then pv_clear pv else pv),
                               w\<lparr>eng := Slowdown env (eng w)\<rparr>))
         | Inr ab \<Rightarrow> Search_probe env rec ply (alpha \<noteq> beta - 1) (fst ab) (snd ab) depth
                      was_null last_move last_capt_sq (if ply \<noteq> 0 then pv_clear pv else pv)
                      (w\<lparr>eng := Slowdown env (eng w)\<rparr>)))
   \<and> (Search_enter env (Search env n) 0 alpha beta depth was_null last_move last_capt_sq pv w
        = Some (Inr (nd, ls))
      \<and> main_loop env (Search env n) n nd ls = Some (Inr ls')
      \<and> alpha \<noteq> beta - 1 \<and> l_alpha ls' = l_alpha ls \<longrightarrow>
      (\<exists>v w'. Search env (Suc n) 0 alpha beta depth was_null last_move last_capt_sq pv w
                = Some (v, l_pv ls, w'))
      \<and> (l_pv ls = pv
         \<or> (6 < depth
            \<and> (\<exists>w0 v w1. Search env n 0 alpha beta (depth - 2) False (- 1) last_capt_sq pv w0
                           = Some (v, l_pv ls, w1)))))"
proof (intro conjI impI)
  assume "0 < depth \<and> \<not> aborted env (w\<lparr>eng := Slowdown env (eng w)\<rparr>)
      \<and> \<not> (IsDraw env (pos w) \<and> ply \<noteq> 0)"
  then show "Search_enter env rec ply alpha beta depth was_null last_move last_capt_sq pv w =
        (case mate_distance env ply alpha beta of
           Inl v \<Rightarrow> Some (Inl (v, (if ply \<noteq> 0 then pv_clear pv else pv),
                               w\<lparr>eng := Slowdown env (eng w)\<rparr>))
         | Inr ab \<Rightarrow> Search_probe env rec ply (alpha \<noteq> beta - 1) (fst ab) (snd ab) depth
                      was_null last_move last_capt_sq (if ply \<noteq> 0 then pv_clear pv else pv)
                      (w\<lparr>eng := Slowdown env (eng w)\<rparr>))"
    using Search_enter_mdp by blast
next
  assume a: "Search_enter env (Search env n) 0 alpha beta depth was_null last_move last_capt_sq pv w
        = Some (Inr (nd, ls))
      \<and> main_loop env (Search env n) n nd ls = Some (Inr ls')
      \<and> alpha \<noteq> beta - 1 \<and> l_alpha ls' = l_alpha ls"
  then have e: "Search_enter env (Search env n) 0 alpha beta depth was_null last_move last_capt_sq
        pv w = Some (Inr (nd, ls))"
    and m: "main_loop env (Search env n) n nd ls = Some (Inr ls')"
    and pvn: "alpha \<noteq> beta - 1" and un: "l_alpha ls' = l_alpha ls"
    by simp_all
  note s = Search_enter_start [OF e]
  from s pvn have dn: "\<not> n_did_null nd" by auto
  from s have "loop_inv env nd (l_alpha ls) ls" by (simp add: loop_inv_start)
  from main_loop_inv [OF m this] dn un have pv: "l_pv ls' = l_pv ls" by simp
  have "fst (snd (Search_finish env nd ls')) = l_pv ls'"
    by (simp add: Search_finish_def Let_def)
  then obtain v w' where "Search_finish env nd ls' = (v, l_pv ls, w')"
    using pv by (metis prod.collapse)
  with Search_loop_done [OF e m]
  show "\<exists>v w'. Search env (Suc n) 0 alpha beta depth was_null last_move last_capt_sq pv w
                = Some (v, l_pv ls, w')"
    by auto
  from Search_enter_root_pv [OF e pvn]
  show "l_pv ls = pv
         \<or> (6 < depth
            \<and> (\<exists>w0 v w1. Search env n 0 alpha beta (depth - 2) False (- 1) last_capt_sq pv w0
                           = Some (v, l_pv ls, w1)))" .
qed


theorem Search_pv_buffer_at_root_witness:
  "(\<exists>v w'. Search (toy_env False False [100] 0 False) 3 0 10 20 1 False (- 1) (- 1) [5, 0]
             (toy_world False) = Some (v, [5, 0], w'))
   \<and> Search_enter (toy_env False False [100] 0 False) (Search (toy_env False False [100] 0 False) 0)
        1 10 20 1 False (- 1) (- 1) [5, 0] (toy_world False)
     = Search_probe (toy_env False False [100] 0 False) (Search (toy_env False False [100] 0 False) 0)
        1 True 10 20 1 False (- 1) (- 1) [0, 0] (toy_world False)"
proof -
  let ?e = "toy_env False False [100] 0 False"
  let ?nl = "Search_init ?e 0 True 10 20 1 (- 1) (- 1) False False 0 False 0 (- 1) [] [5, 0]
      (toy_world False)"
  let ?ls' = "\<lparr>l_alpha = 10, l_best = 0, l_mv_tried = 1, l_mv_played = [100],
      l_quiet_tried = 1, l_fl_futility = False, l_m = [], l_new_pv = [0], l_pv = [5, 0],
      l_w = toy_world False\<rparr>"
  have e: "Search_enter ?e (Search ?e 2) 0 10 20 1 False (- 1) (- 1) [5, 0] (toy_world False)
      = Some (Inr (fst ?nl, snd ?nl))"
    by (simp add: phase_defs toy_defs)
  have m: "main_loop ?e (Search ?e 2) 2 (fst ?nl) (snd ?nl) = Some (Inr ?ls')"
    by (simp add: eval_nat_numeral phase_defs toy_defs)
  have u: "(10::int) \<noteq> 20 - 1" "l_alpha ?ls' = l_alpha (snd ?nl)"
    by (simp_all add: Search_init_def)
  have a: "0 < (1::int) \<and> \<not> aborted ?e ((toy_world False)\<lparr>eng := Slowdown ?e (eng (toy_world False))\<rparr>)
      \<and> \<not> (IsDraw ?e (pos (toy_world False)) \<and> (1::int) \<noteq> 0)"
    by (simp add: aborted_def toy_defs)
  note t = Search_pv_buffer_at_root [of 1 ?e "toy_world False" 1 "Search ?e 0" 10 20 False "- 1"
      "- 1" "[5, 0]" 2 "fst ?nl" "snd ?nl" ?ls']
  have 1: "\<exists>v w'. Search ?e (Suc 2) 0 10 20 1 False (- 1) (- 1) [5, 0] (toy_world False)
      = Some (v, [5, 0], w')"
    using t [THEN conjunct2] e m u by (simp add: Search_init_def)
  have 2: "Search_enter ?e (Search ?e 0) 1 10 20 1 False (- 1) (- 1) [5, 0] (toy_world False)
     = Search_probe ?e (Search ?e 0) 1 True 10 20 1 False (- 1) (- 1) [0, 0] (toy_world False)"
    using t [THEN conjunct1] a by (simp add: mate_distance_def pv_clear_def toy_defs)
  from 1 2 show ?thesis by (simp add: eval_nat_numeral)
qed

text \<open>
  With \<open>depth = 7\<close> internal iterative deepening runs a nested search at the root on
  the same buffer: the call returns \<open>0\<close>, below \<open>alpha = 10\<close>, and the buffer \<open>[5, 0]\<close>
  passed in is not the buffer at exit.
\<close>

theorem Search_pv_buffer_iid_counterexample:
  "Search (toy_env_ply (\<lambda>ply. if ply = 5 then - 15 else 0) 0) 10 0 10 20 7 False (- 1) (- 1)
       [5, 0] (toy_world False)
     = Some (0, [100, 100, 100, 100, 100, 0],
         \<lparr>pos = [], eng = (False, 5),
          log = [History_Update 100 100 1 4, History_Decrease 100 1, TT_Store 4 100 15 EXACT 1 4,
                 History_Update 100 100 2 3, History_Decrease 100 2,
                 TT_Store 3 100 (- 15) EXACT 2 3, History_Update 100 100 3 2,
                 History_Decrease 100 3, TT_Store 2 100 15 EXACT 3 2, History_Update 100 100 4 1,
                 History_Decrease 100 4, TT_Store 1 100 (- 15) EXACT 4 1,
                 History_Update (- 1) 100 5 0, History_Decrease 100 5,
                 TT_Store 0 100 15 EXACT 5 0, TT_Store 6 0 0 UPPER 1 6,
                 History_Update 100 100 2 5, History_Decrease 100 2, TT_Store 5 100 0 LOWER 2 5,
                 TT_Store 4 0 0 UPPER 3 4, History_Update 100 100 4 3, History_Decrease 100 4,
                 TT_Store 3 100 0 LOWER 4 3, TT_Store 2 0 0 UPPER 5 2,
                 History_Update 100 100 6 1, History_Decrease 100 6, TT_Store 1 100 0 LOWER 6 1,
                 History_Update (- 1) 100 7 0, History_Decrease 100 7, TT_Store 0 100 0 EXACT 7 0]\<rparr>)
   \<and> \<not> (10 < (0::int))
   \<and> [100, 100, 100, 100, 100, 0] \<noteq> [5, 0 :: int]"
  by (simp add: eval_nat_numeral phase_defs toy_defs toy_env_ply_def)

subsection \<open>The abort checks\<close>











end
